theory Spec2Isabelle
  imports Main
begin

section \<open>JavaScript values\<close>

text \<open>
  The values that cross the interfaces modelled here: what a cache entry stores, what an
  Express query parameter holds, what \<^verbatim>\<open>JSON.parse\<close> returns. Numbers are the
  integers (timestamps in milliseconds, exit codes, counts).
\<close>

datatype jsval =
    JUndefined
  | JNull
  | JBool bool
  | JNum int
  | JStr string
  | JArr "jsval list"
  | JObj "(string \<times> jsval) list"

text \<open>JavaScript's \<^verbatim>\<open>ToBoolean\<close>: what \<^verbatim>\<open>if (v)\<close>, \<^verbatim>\<open>!v\<close> and \<^verbatim>\<open>a || b\<close> test.\<close>

fun truthy :: "jsval \<Rightarrow> bool" where
  "truthy JUndefined = False"
| "truthy JNull = False"
| "truthy (JBool b) = b"
| "truthy (JNum n) = (n \<noteq> 0)"
| "truthy (JStr s) = (s \<noteq> [])"
| "truthy (JArr _) = True"
| "truthy (JObj _) = True"

section \<open>JavaScript strings\<close>

text \<open>
  A string is the list of its code units; the model covers the code units below 256, one
  \<open>char\<close> each. \<open>isWhiteSpace\<close> is the set that \<^verbatim>\<open>String.prototype.trim\<close> strips and that
  \<^verbatim>\<open>\s\<close> matches (WhiteSpace and LineTerminator of the language), restricted to that
  range: TAB, LF, VT, FF, CR, SPACE and NO-BREAK SPACE.
\<close>

definition isWhiteSpace :: "char \<Rightarrow> bool" where
  "isWhiteSpace c = (c \<in> set [CHR 0x09, CHR 0x0A, CHR 0x0B, CHR 0x0C, CHR 0x0D, CHR 0x20, CHR 0xA0])"

definition trim :: "string \<Rightarrow> string" where
  "trim s = rev (dropWhile isWhiteSpace (rev (dropWhile isWhiteSpace s)))"

text \<open>\<^verbatim>\<open>a || b\<close> on strings: the empty string is the only falsy one.\<close>

definition str_or :: "string \<Rightarrow> string \<Rightarrow> string" where
  "str_or a b = (if a \<noteq> [] then a else b)"

text \<open>\<^verbatim>\<open>s.includes(sub)\<close>.\<close>

fun startsWith :: "string \<Rightarrow> string \<Rightarrow> bool" where
  "startsWith s [] = True"
| "startsWith [] (p # ps) = False"
| "startsWith (c # cs) (p # ps) = (c = p \<and> startsWith cs ps)"

fun str_includes :: "string \<Rightarrow> string \<Rightarrow> bool" where
  "str_includes [] sub = (sub = [])"
| "str_includes (c # cs) sub = (startsWith (c # cs) sub \<or> str_includes cs sub)"

text \<open>\<^verbatim>\<open>Number.prototype.toString\<close> on an integer, as a template literal applies it.\<close>

definition digit_char :: "nat \<Rightarrow> char" where
  "digit_char n = ''0123456789'' ! n"

function digits_of :: "nat \<Rightarrow> string" where
  "digits_of n = (if n < 10 then [digit_char n] else digits_of (n div 10) @ [digit_char (n mod 10)])"
  by pat_completeness auto
termination
  by (relation "measure id") auto

declare digits_of.simps [simp del]

definition number_toString :: "int \<Rightarrow> string" where
  "number_toString i = (if i < 0 then CHR ''-'' # digits_of (nat (- i)) else digits_of (nat i))"

text \<open>\<^verbatim>\<open>Array.prototype.join\<close> on strings.\<close>

fun join :: "string \<Rightarrow> string list \<Rightarrow> string" where
  "join sep [] = []"
| "join sep [x] = x"
| "join sep (x # y # ys) = x @ sep @ join sep (y # ys)"

text \<open>
  \<^verbatim>\<open>ToString\<close>, which \<^verbatim>\<open>${v}\<close> applies; inside \<^verbatim>\<open>join\<close>, \<^verbatim>\<open>null\<close> and \<^verbatim>\<open>undefined\<close>
  elements give the empty string.
\<close>

fun js_toString :: "jsval \<Rightarrow> string" where
  "js_toString JUndefined = ''undefined''"
| "js_toString JNull = ''null''"
| "js_toString (JBool b) = (if b then ''true'' else ''false'')"
| "js_toString (JNum n) = number_toString n"
| "js_toString (JStr s) = s"
| "js_toString (JArr xs) =
     join '','' (map (\<lambda>x. if x = JUndefined \<or> x = JNull then [] else js_toString x) xs)"
| "js_toString (JObj _) = ''[object Object]''"

definition join_values :: "string \<Rightarrow> jsval list \<Rightarrow> string" where
  "join_values sep xs =
     join sep (map (\<lambda>x. if x = JUndefined \<or> x = JNull then [] else js_toString x) xs)"

text \<open>\<^verbatim>\<open>String.prototype.toLowerCase\<close> on the code units below 256.\<close>

definition upper_case_chars :: "char list" where
  "upper_case_chars = ''ABCDEFGHIJKLMNOPQRSTUVWXYZ'' @
     [CHR 0xC0, CHR 0xC1, CHR 0xC2, CHR 0xC3, CHR 0xC4, CHR 0xC5, CHR 0xC6, CHR 0xC7, CHR 0xC8,
      CHR 0xC9, CHR 0xCA, CHR 0xCB, CHR 0xCC, CHR 0xCD, CHR 0xCE, CHR 0xCF, CHR 0xD0, CHR 0xD1,
      CHR 0xD2, CHR 0xD3, CHR 0xD4, CHR 0xD5, CHR 0xD6, CHR 0xD8, CHR 0xD9, CHR 0xDA, CHR 0xDB,
      CHR 0xDC, CHR 0xDD, CHR 0xDE]"

definition lower_case_chars :: "char list" where
  "lower_case_chars = ''abcdefghijklmnopqrstuvwxyz'' @
     [CHR 0xE0, CHR 0xE1, CHR 0xE2, CHR 0xE3, CHR 0xE4, CHR 0xE5, CHR 0xE6, CHR 0xE7, CHR 0xE8,
      CHR 0xE9, CHR 0xEA, CHR 0xEB, CHR 0xEC, CHR 0xED, CHR 0xEE, CHR 0xEF, CHR 0xF0, CHR 0xF1,
      CHR 0xF2, CHR 0xF3, CHR 0xF4, CHR 0xF5, CHR 0xF6, CHR 0xF8, CHR 0xF9, CHR 0xFA, CHR 0xFB,
      CHR 0xFC, CHR 0xFD, CHR 0xFE]"

definition toLowerCase_char :: "char \<Rightarrow> char" where
  "toLowerCase_char c =
     (case map_of (zip upper_case_chars lower_case_chars) c of None \<Rightarrow> c | Some l \<Rightarrow> l)"

definition toLowerCase :: "string \<Rightarrow> string" where
  "toLowerCase s = map toLowerCase_char s"

text \<open>\<^verbatim>\<open>s.replace(/\s+/g, '-')\<close>: every maximal run of white space becomes one hyphen.\<close>

function replace_ws_runs :: "string \<Rightarrow> string" where
  "replace_ws_runs [] = []"
| "replace_ws_runs (c # cs) =
     (if isWhiteSpace c then CHR ''-'' # replace_ws_runs (dropWhile isWhiteSpace cs)
      else c # replace_ws_runs cs)"
  by pat_completeness auto
termination
  by (relation "measure length") (auto simp: length_dropWhile_le less_Suc_eq_le)

section \<open>Regular expressions with backtracking\<close>

text \<open>
  The fragment of the regular-expression language that \<^verbatim>\<open>parseAndHandleJson\<close> uses: a
  literal character, \<^verbatim>\<open>[\s\S]*\<close> (any run of code units, greedy), sequence and ordered
  alternation. \<open>rx_match r s\<close> lists what is left of \<open>s\<close> after each way of matching a
  prefix of it, in the order in which a backtracking matcher tries them, so the head is
  the match the engine reports.
\<close>

datatype rx = Lit char | AnyStar | Seq rx rx | Alt rx rx

fun tails_greedy :: "string \<Rightarrow> string list" where
  "tails_greedy [] = [[]]"
| "tails_greedy (c # cs) = tails_greedy cs @ [c # cs]"

fun rx_match :: "rx \<Rightarrow> string \<Rightarrow> string list" where
  "rx_match (Lit c) s = (case s of [] \<Rightarrow> [] | x # xs \<Rightarrow> if x = c then [xs] else [])"
| "rx_match AnyStar s = tails_greedy s"
| "rx_match (Seq a b) s = concat (map (rx_match b) (rx_match a s))"
| "rx_match (Alt a b) s = rx_match a s @ rx_match b s"

definition rx_exec :: "rx \<Rightarrow> string \<Rightarrow> string option" where
  "rx_exec r s =
     (case rx_match r s of [] \<Rightarrow> None | rest # _ \<Rightarrow> Some (take (length s - length rest) s))"

text \<open>
  \<^verbatim>\<open>s.match(r)\<close> for a pattern without the global flag: the match at the leftmost
  position that has one, with its index.
\<close>

fun rx_search :: "rx \<Rightarrow> string \<Rightarrow> (nat \<times> string) option" where
  "rx_search r [] = (case rx_exec r [] of None \<Rightarrow> None | Some m \<Rightarrow> Some (0, m))"
| "rx_search r (c # cs) =
     (case rx_exec r (c # cs) of
        Some m \<Rightarrow> Some (0, m)
      | None \<Rightarrow> (case rx_search r cs of None \<Rightarrow> None | Some (i, m) \<Rightarrow> Some (Suc i, m)))"

section \<open>The response cache (utils/cache.js)\<close>

text \<open>
  \<^verbatim>\<open>const cache = {}\<close> maps a key to \<^verbatim>\<open>{ data, timestamp }\<close>. The module-level object
  is passed explicitly, and so is the reading of \<^verbatim>\<open>Date.now()\<close>.
\<close>

record cache_entry =
  data :: jsval
  timestamp :: int

type_synonym cache = "string \<rightharpoonup> cache_entry"

text \<open>
  \<^verbatim>\<open>function getCachedData(key, ttl, forceRefresh = false)\<close>: the default applies when
  the argument is \<^verbatim>\<open>undefined\<close>. The result \<open>JNull\<close> is the source's \<^verbatim>\<open>return null\<close>.
\<close>

definition getCachedData :: "cache \<Rightarrow> int \<Rightarrow> string \<Rightarrow> int \<Rightarrow> jsval \<Rightarrow> jsval" where
  "getCachedData cache now key ttl forceRefresh0 =
     (let forceRefresh = (if forceRefresh0 = JUndefined then JBool False else forceRefresh0) in
      case cache key of
        None \<Rightarrow> JNull
      | Some entry \<Rightarrow>
          if truthy forceRefresh \<or> now - timestamp entry > ttl then JNull
          else data entry)"

definition setCacheData :: "cache \<Rightarrow> int \<Rightarrow> string \<Rightarrow> jsval \<Rightarrow> cache" where
  "setCacheData cache now key d = cache(key \<mapsto> \<lparr>data = d, timestamp = now\<rparr>)"

definition clearCacheItem :: "cache \<Rightarrow> string \<Rightarrow> cache" where
  "clearCacheItem cache key = cache(key := None)"

definition clearAllCache :: "cache \<Rightarrow> cache" where
  "clearAllCache cache = Map.empty"

section \<open>External commands (utils/kubectlUtils.js)\<close>

text \<open>
  What a spawned process does is the environment's choice: the chunks it writes, in
  order, and how it ends. It ends with the \<^verbatim>\<open>close\<close> event, whose code is a number or
  \<^verbatim>\<open>null\<close> (killed by a signal), or with the \<^verbatim>\<open>error\<close> event (it could not be spawned).
\<close>

datatype chunk = Stdout string | Stderr string

datatype exit = Closed "int option" | SpawnError string

record proc_run =
  chunks :: "chunk list"
  ending :: exit

fun stdoutBuffer :: "chunk list \<Rightarrow> string" where
  "stdoutBuffer [] = []"
| "stdoutBuffer (Stdout d # cs) = d @ stdoutBuffer cs"
| "stdoutBuffer (Stderr d # cs) = stdoutBuffer cs"

fun stderrBuffer :: "chunk list \<Rightarrow> string" where
  "stderrBuffer [] = []"
| "stderrBuffer (Stdout d # cs) = stderrBuffer cs"
| "stderrBuffer (Stderr d # cs) = d @ stderrBuffer cs"

definition code_toString :: "int option \<Rightarrow> string" where
  "code_toString code = (case code of None \<Rightarrow> ''null'' | Some n \<Rightarrow> number_toString n)"

text \<open>The template literal \<^verbatim>\<open>`Command exited with code ${code}`\<close>.\<close>

definition exit_code_message :: "int option \<Rightarrow> string" where
  "exit_code_message code = ''Command exited with code '' @ code_toString code"

text \<open>
  \<open>execPromise\<close>: \<open>Inr\<close> is the value the promise resolves with, \<open>Inl\<close> the message of the
  \<^verbatim>\<open>Error\<close> it rejects with.
\<close>

definition execPromise :: "string \<Rightarrow> proc_run \<Rightarrow> string + string" where
  \<open>execPromise command r =
     (case ending r of
        Closed code \<Rightarrow>
          if code = Some 0 then Inr (trim (stdoutBuffer (chunks r)))
          else
            let fullError =
                  str_or (stderrBuffer (chunks r))
                    (str_or (stdoutBuffer (chunks r)) (exit_code_message code))
            in Inl (trim fullError)
      | SpawnError msg \<Rightarrow> Inl (''Failed to execute command "'' @ command @ ''": '' @ msg))\<close>

text \<open>
  \<open>parseAndHandleJson\<close>. \<^verbatim>\<open>JSON.parse\<close> belongs to the platform and is a parameter:
  \<open>Inr\<close> the parsed value, \<open>Inl\<close> the message of the \<^verbatim>\<open>SyntaxError\<close>. The result is
  \<open>Inr\<close> the returned value or \<open>Inl\<close> the message of the error thrown.
\<close>

definition json_pattern :: rx where
  "json_pattern =
     Alt (Seq (Lit CHR ''{'') (Seq AnyStar (Lit CHR ''}'')))
         (Seq (Lit CHR ''['') (Seq AnyStar (Lit CHR '']'')))"

definition no_json_message :: "string \<Rightarrow> string" where
  "no_json_message context =
     ''No valid JSON structure found for '' @ context @ ''. Raw output might be empty or malformed.''"

definition parse_failed_message :: "string \<Rightarrow> string \<Rightarrow> string" where
  "parse_failed_message context e =
     ''Failed to parse '' @ context
     @ '' as JSON. Raw output might be malformed or contain non-JSON data. Details: '' @ e"

definition parseAndHandleJson :: "(string \<Rightarrow> string + 'j) \<Rightarrow> string \<Rightarrow> string \<Rightarrow> string + 'j" where
  "parseAndHandleJson JSON_parse jsonString context =
     (let cleanedJsonString = trim jsonString in
      case rx_search json_pattern cleanedJsonString of
        Some (idx, m) \<Rightarrow>
          if m \<noteq> [] then
            (case JSON_parse m of
               Inr parsed \<Rightarrow> Inr parsed
             | Inl e \<Rightarrow> Inl (parse_failed_message context e))
          else Inl (no_json_message context)
      | None \<Rightarrow> Inl (no_json_message context))"

text \<open>
  The extraction in the specification's words: the substring from the first \<^verbatim>\<open>{\<close> or
  \<^verbatim>\<open>[\<close> that has a closing bracket of its own kind after it, through the last such
  closing bracket.
\<close>

definition through_last :: "char \<Rightarrow> string \<Rightarrow> string" where
  "through_last c s = rev (dropWhile (\<lambda>x. x \<noteq> c) (rev s))"

fun spec_bracketed_substring :: "string \<Rightarrow> string option" where
  "spec_bracketed_substring [] = None"
| "spec_bracketed_substring (c # cs) =
     (if c = CHR ''{'' \<and> CHR ''}'' \<in> set cs then Some (c # through_last CHR ''}'' cs)
      else if c = CHR ''['' \<and> CHR '']'' \<in> set cs then Some (c # through_last CHR '']'' cs)
      else spec_bracketed_substring cs)"


text \<open>The input of the specification's example, \<^verbatim>\<open>"warning: cache miss\n{\"a\":1}\n"\<close>.\<close>

definition cache_miss_example :: string where
  \<open>cache_miss_example = ''warning: cache miss'' @ [CHR 0x0A] @ ''{"a":1}'' @ [CHR 0x0A]\<close>

text \<open>
  The WebSocket of a session, as the handlers see it: \<^verbatim>\<open>ws.readyState\<close> (0 to 3) and
  the frames \<^verbatim>\<open>{type: 'log', data}\<close>, \<^verbatim>\<open>{type: 'complete', message}\<close> and
  \<^verbatim>\<open>{type: 'error', message}\<close> that \<^verbatim>\<open>ws.send\<close> is given.
\<close>

datatype ready = CONNECTING | OPEN | CLOSING | CLOSED

datatype frame = Log string | Complete string | Error string

text \<open>The escape sequences that colour a text red (stderr) and yellow (retry notice).\<close>

definition red :: "string \<Rightarrow> string" where
  "red s = [CHR 0x1B] @ ''[31m'' @ s @ [CHR 0x1B] @ ''[0m''"

definition yellow :: "string \<Rightarrow> string" where
  "yellow s = [CHR 0x1B] @ ''[33m'' @ s @ [CHR 0x1B] @ ''[0m''"

text \<open>
  \<open>executeCommand\<close> streams every chunk to the socket if the socket is open when the
  chunk arrives, so a streamed run carries, with each chunk, the \<^verbatim>\<open>readyState\<close> at that
  moment. It never rejects: the result is \<^verbatim>\<open>{success: true, output}\<close> or
  \<^verbatim>\<open>{success: false, error}\<close>. The second component is the frames sent.
\<close>

record stream_run =
  events :: "(chunk \<times> ready) list"
  finish :: exit

datatype cmd_result = Success string | Failure string

fun stream_frames :: "(chunk \<times> ready) list \<Rightarrow> frame list" where
  "stream_frames [] = []"
| "stream_frames ((Stdout d, rs) # es) = (if rs = OPEN then [Log d] else []) @ stream_frames es"
| "stream_frames ((Stderr d, rs) # es) = (if rs = OPEN then [Log (red d)] else []) @ stream_frames es"

definition executeCommand :: "stream_run \<Rightarrow> cmd_result \<times> frame list" where
  "executeCommand r =
     (let output = stdoutBuffer (map fst (events r));
          errorOutput = stderrBuffer (map fst (events r))
      in ((case finish r of
             Closed code \<Rightarrow>
               if code = Some 0 then Success output
               else Failure (str_or errorOutput (exit_code_message code))
           | SpawnError msg \<Rightarrow> Failure msg),
          stream_frames (events r)))"

text \<open>
  \<open>executeCommandWithRetry\<close>. What it does to the outside is a trace: the processes it
  spawns, the frames it sends and the delays it waits. The environment gives, for the
  \<open>i\<close>-th call of \<open>executeCommand\<close>, the streamed run and the \<^verbatim>\<open>readyState\<close> read after
  it. The loop counter runs over the naturals; \<open>retries\<close> and \<open>delay\<close> are the numbers passed.
\<close>

datatype effect = Spawn string | Send frame | Sleep int

record attempt =
  run :: stream_run
  ready_after :: ready

definition retry_notice :: "nat \<Rightarrow> int \<Rightarrow> string \<Rightarrow> string" where
  "retry_notice i retries command =
     yellow (''Retrying command (attempt '' @ number_toString (int i + 1) @ ''/''
             @ number_toString retries @ ''): '' @ command) @ [CHR 0x0A]"

definition retries_exhausted_message :: "int \<Rightarrow> string \<Rightarrow> string" where
  "retries_exhausted_message retries command =
     ''Command failed after '' @ number_toString retries @ '' attempts: '' @ command"

function retry_from :: "string \<Rightarrow> int \<Rightarrow> int \<Rightarrow> (nat \<Rightarrow> attempt) \<Rightarrow> nat \<Rightarrow> effect list \<times> cmd_result" where
  "retry_from command retries delay env i =
     (if int i < retries then
        (case executeCommand (run (env i)) of
           (Success out, frames) \<Rightarrow> (Spawn command # map Send frames, Success out)
         | (Failure err, frames) \<Rightarrow>
             (let (rest, result) = retry_from command retries delay env (Suc i)
              in (Spawn command # map Send frames
                  @ (if ready_after (env i) = OPEN
                     then [Send (Log (retry_notice i retries command))] else [])
                  @ [Sleep delay] @ rest,
                  result)))
      else ([], Failure (retries_exhausted_message retries command)))"
  by pat_completeness auto
termination
  by (relation "measure (\<lambda>(command, retries, delay, env, i). nat (retries - int i))") auto

declare retry_from.simps [simp del]

definition executeCommandWithRetry :: "string \<Rightarrow> int \<Rightarrow> int \<Rightarrow> (nat \<Rightarrow> attempt) \<Rightarrow> effect list \<times> cmd_result" where
  "executeCommandWithRetry command retries delay env = retry_from command retries delay env 0"

text \<open>
  The vocabulary in which the trace of \<open>executeCommandWithRetry\<close> is described: whether the
  \<open>k\<close>-th attempt failed, what the \<open>k\<close>-th attempt itself contributes (the spawn and the
  frames streamed), and what follows a failed attempt (the retry notice, if the socket is
  open, and the delay).
\<close>

definition attempt_failed :: "(nat \<Rightarrow> attempt) \<Rightarrow> nat \<Rightarrow> bool" where
  "attempt_failed env k =
     (case fst (executeCommand (run (env k))) of Success _ \<Rightarrow> False | Failure _ \<Rightarrow> True)"

definition attempt_trace :: "string \<Rightarrow> (nat \<Rightarrow> attempt) \<Rightarrow> nat \<Rightarrow> effect list" where
  "attempt_trace command env k = Spawn command # map Send (snd (executeCommand (run (env k))))"

definition after_failure :: "string \<Rightarrow> int \<Rightarrow> int \<Rightarrow> (nat \<Rightarrow> attempt) \<Rightarrow> nat \<Rightarrow> effect list" where
  "after_failure command retries delay env k =
     (if ready_after (env k) = OPEN then [Send (Log (retry_notice k retries command))] else [])
     @ [Sleep delay]"

fun is_spawn :: "effect \<Rightarrow> bool" where
  "is_spawn (Spawn _) = True"
| "is_spawn _ = False"

definition spawn_count :: "effect list \<Rightarrow> nat" where
  "spawn_count eff = length (filter is_spawn eff)"

section \<open>The port-forward singleton (routes/kubernetesRoutes.js)\<close>

text \<open>
  \<^verbatim>\<open>req.app.locals.portForwardProcess\<close> holds the handle of the forwarding subprocess or
  \<^verbatim>\<open>null\<close>. The state also keeps every subprocess spawned, with the request whose \<^verbatim>\<open>res\<close>
  its listeners captured, and every response sent (\<^verbatim>\<open>res.headersSent\<close> is true for a
  request that has one). Requests are numbered in order of arrival.
\<close>

record http_response =
  status :: int
  body :: string
  port :: "int option"

record pf_proc =
  owner :: nat
  terminated :: bool
  closed :: bool

record app =
  portForwardProcess :: "nat option"
  pf_procs :: "pf_proc list"
  responses :: "(nat \<times> http_response) list"
  requests :: nat

datatype pf_event =
    PfStart
  | PfStop
  | PfStdout nat string
  | PfStderr nat string
  | PfClose nat "int option"
  | PfError nat string

definition pf_init :: app where
  "pf_init = \<lparr>portForwardProcess = None, pf_procs = [], responses = [], requests = 0\<rparr>"

definition headersSent :: "app \<Rightarrow> nat \<Rightarrow> bool" where
  "headersSent s r = (r \<in> fst ` set (responses s))"

definition respond :: "nat \<Rightarrow> http_response \<Rightarrow> app \<Rightarrow> app" where
  "respond r resp s = s\<lparr>responses := responses s @ [(r, resp)]\<rparr>"

definition localPort :: int where
  "localPort = 8080"

text \<open>\<^verbatim>\<open>router.post('/kube-start-port-forward', ...)\<close>, up to the end of the handler.\<close>

definition start_port_forward :: "app \<Rightarrow> app" where
  "start_port_forward s0 =
     (let r = requests s0; s = s0\<lparr>requests := Suc r\<rparr> in
      if portForwardProcess s \<noteq> None then
        respond r \<lparr>status = 200, body = ''Port-forwarding already active.'', port = Some 8080\<rparr> s
      else
        s\<lparr>pf_procs := pf_procs s @ [\<lparr>owner = r, terminated = False, closed = False\<rparr>],
           portForwardProcess := Some (length (pf_procs s))\<rparr>)"

text \<open>\<^verbatim>\<open>router.post('/kube-stop-port-forward', ...)\<close>.\<close>

definition stop_port_forward :: "app \<Rightarrow> app" where
  "stop_port_forward s0 =
     (let r = requests s0; s = s0\<lparr>requests := Suc r\<rparr> in
      case portForwardProcess s of
        Some p \<Rightarrow>
          respond r \<lparr>status = 200, body = ''Port-forwarding stopped.'', port = None\<rparr>
            (s\<lparr>pf_procs := (pf_procs s)[p := (pf_procs s ! p)\<lparr>terminated := True\<rparr>],
               portForwardProcess := None\<rparr>)
      | None \<Rightarrow>
          respond r \<lparr>status = 200, body = ''No active port-forwarding process to stop.'',
                     port = None\<rparr> s)"

text \<open>
  The listeners of subprocess \<open>p\<close>. They stay attached for the life of the subprocess;
  an event of a subprocess that does not exist or has closed is not an event.
\<close>

definition pf_live :: "app \<Rightarrow> nat \<Rightarrow> bool" where
  "pf_live s p = (p < length (pf_procs s) \<and> \<not> closed (pf_procs s ! p))"

definition on_pf_stdout :: "nat \<Rightarrow> string \<Rightarrow> app \<Rightarrow> app" where
  "on_pf_stdout p d s =
     (let r = owner (pf_procs s ! p) in
      if \<not> headersSent s r \<and> str_includes d ''Forwarding from'' then
        respond r \<lparr>status = 200, body = ''Port-forwarding started successfully.'',
                   port = Some localPort\<rparr> s
      else s)"

definition on_pf_stderr :: "nat \<Rightarrow> string \<Rightarrow> app \<Rightarrow> app" where
  "on_pf_stderr p d s =
     (let r = owner (pf_procs s ! p);
          s1 = (if \<not> headersSent s r then
                  respond r \<lparr>status = 500, body = ''Failed to start port-forwarding: '' @ d,
                             port = None\<rparr> s
                else s)
      in s1\<lparr>portForwardProcess := None\<rparr>)"

definition on_pf_close :: "nat \<Rightarrow> int option \<Rightarrow> app \<Rightarrow> app" where
  "on_pf_close p code s =
     s\<lparr>pf_procs := (pf_procs s)[p := (pf_procs s ! p)\<lparr>closed := True\<rparr>],
       portForwardProcess := None\<rparr>"

definition on_pf_error :: "nat \<Rightarrow> string \<Rightarrow> app \<Rightarrow> app" where
  "on_pf_error p msg s =
     (let r = owner (pf_procs s ! p);
          s1 = (if \<not> headersSent s r then
                  respond r \<lparr>status = 500, body = ''Failed to spawn kubectl port-forward process.'',
                             port = None\<rparr> s
                else s)
      in s1\<lparr>portForwardProcess := None\<rparr>)"

fun pf_step :: "app \<Rightarrow> pf_event \<Rightarrow> app" where
  "pf_step s PfStart = start_port_forward s"
| "pf_step s PfStop = stop_port_forward s"
| "pf_step s (PfStdout p d) = (if pf_live s p then on_pf_stdout p d s else s)"
| "pf_step s (PfStderr p d) = (if pf_live s p then on_pf_stderr p d s else s)"
| "pf_step s (PfClose p code) = (if pf_live s p then on_pf_close p code s else s)"
| "pf_step s (PfError p msg) = (if pf_live s p then on_pf_error p msg s else s)"

definition pf_run :: "app \<Rightarrow> pf_event list \<Rightarrow> app" where
  "pf_run s evs = foldl pf_step s evs"

fun is_pf_stdout :: "pf_event \<Rightarrow> bool" where
  "is_pf_stdout (PfStdout _ _) = True"
| "is_pf_stdout _ = False"

text \<open>Invariants of the port-forward state and the success response of a start.\<close>

text \<open>Responses answer requests that have arrived, and listeners belong to such requests.\<close>

definition pf_wf :: "app \<Rightarrow> bool" where
  "pf_wf s = ((\<forall>p < length (pf_procs s). owner (pf_procs s ! p) < requests s)
              \<and> (\<forall>x \<in> set (responses s). fst x < requests s))"

text \<open>Every response that names a port names 8080.\<close>

definition ports_ok :: "app \<Rightarrow> bool" where
  "ports_ok s = (\<forall>x \<in> set (responses s). port (snd x) = None \<or> port (snd x) = Some 8080)"

definition started_ok :: http_response where
  "started_ok = \<lparr>status = 200, body = ''Port-forwarding started successfully.'', port = Some 8080\<rparr>"

section \<open>The cluster configuration (utils/eksConfigGenerator.js)\<close>

text \<open>
  The payload of a \<^verbatim>\<open>create\<close> message. \<^verbatim>\<open>payload.clusterName.replace(...)\<close> needs a
  string, so the name is one; every other field is whatever the JSON held (a missing
  field is \<^verbatim>\<open>undefined\<close>) and reaches the templates through \<^verbatim>\<open>ToString\<close>.
\<close>

record create_payload =
  clusterName :: string
  region :: jsval
  kubernetesVersion :: jsval
  nodeGroupName :: jsval
  instanceType :: jsval
  desiredCapacity :: jsval
  minNodes :: jsval
  maxNodes :: jsval
  volumeSize :: jsval
  volumeType :: jsval
  enableSsh :: jsval
  sshKeyName :: jsval
  enableEbsCsiAccess :: jsval
  enableEfsCsiAccess :: jsval
  albIngressAccess :: jsval

definition generateEksClusterConfig :: "create_payload \<Rightarrow> string" where
  \<open>generateEksClusterConfig config =
     ''\<newline>apiVersion: eksctl.io/v1alpha5\<newline>kind: ClusterConfig\<newline>\<newline>metadata:\<newline>  name: ''
     @ clusterName config
     @ ''\<newline>  region: '' @ js_toString (region config)
     @ ''\<newline>  version: "'' @ js_toString (kubernetesVersion config)
     @ ''"\<newline>\<newline>iam:\<newline>  withOIDC: true''
     @ ''\<newline>managedNodeGroups:\<newline>  - name: '' @ js_toString (nodeGroupName config)
     @ ''\<newline>    instanceType: '' @ js_toString (instanceType config)
     @ ''\<newline>    desiredCapacity: '' @ js_toString (desiredCapacity config)
     @ ''\<newline>    minSize: '' @ js_toString (minNodes config)
     @ ''\<newline>    maxSize: '' @ js_toString (maxNodes config)
     @ ''\<newline>    volumeSize: '' @ js_toString (volumeSize config)
     @ ''\<newline>    volumeType: '' @ js_toString (volumeType config)
     @ ''\<newline>    ssh:\<newline>      allow: ''
     @ (if enableSsh config = JBool True then ''true'' else ''false'') @ ''\<newline>''
     @ (if truthy (enableSsh config) \<and> truthy (sshKeyName config)
        then ''\<newline>      publicKeyName: '' @ js_toString (sshKeyName config) @ ''\<newline>''
        else [])
     @ ''\<newline>addons:''
     @ (if truthy (enableEbsCsiAccess config)
        then ''\<newline>  - name: aws-ebs-csi-driver\<newline>    wellKnownPolicies:\<newline>      ebsCSIController: true\<newline>''
        else [])
     @ (if truthy (enableEfsCsiAccess config)
        then ''\<newline>  - name: aws-efs-csi-driver\<newline>    wellKnownPolicies:\<newline>      efsCSIController: true\<newline>''
        else [])
     @ ''\<newline>  - name: vpc-cni\<newline>''\<close>

section \<open>The EKS CLI stream of a WebSocket (websocket/kubernetesWsHandlers.js)\<close>

subsection \<open>Messages, events and state\<close>

text \<open>
  What \<^verbatim>\<open>JSON.parse(message)\<close> and the reading of \<^verbatim>\<open>commandType\<close> and \<^verbatim>\<open>payload\<close> make of
  an inbound message: an exception before anything is sent (a syntax error, or a
  \<^verbatim>\<open>TypeError\<close> on a missing payload or a name that is not a string), with its message;
  a create command; a delete command; or a value with another command type, which the
  handler ignores.
\<close>

record delete_payload =
  del_clusterName :: jsval
  del_region :: jsval

datatype inbound =
    Malformed string
  | Create create_payload
  | Delete delete_payload
  | Other

text \<open>
  The outcome of lines 66 to 71 of the handler, the IAM simulation: something threw
  (\<open>execPromise\<close> rejected, \<^verbatim>\<open>JSON.parse\<close> failed, \<^verbatim>\<open>EvaluationResults\<close> was no array), with
  the message of the error, or the evaluation results were read.
\<close>

record eval_result =
  EvalActionName :: jsval
  EvalDecision :: jsval

datatype iam_outcome = IamThrew string | IamEvaluated "eval_result list"

text \<open>
  Modelled from the spec: \<^verbatim>\<open>utils/clusterUtils.js\<close> (\<^verbatim>\<open>applyDefaultStorageClass\<close>,
  \<^verbatim>\<open>installCertManager\<close>, \<^verbatim>\<open>createOrVerifyAlbIamPolicy\<close>, \<^verbatim>\<open>createAlbIamServiceAccount\<close>,
  \<^verbatim>\<open>installAlbControllerManifest\<close>) is not among the sources. Each helper is awaited by the
  handler and either returns a value or throws; while it runs it reports progress as log
  frames, which are dropped when the socket is not open.
\<close>

datatype helper_result = Returned jsval | Threw string

text \<open>
  The point at which the handler of one inbound command stands: the promise it awaits, or
  the subprocess whose events it listens to.
\<close>

datatype stage =
    AwaitSts
  | AwaitIam
  | AwaitCheck "(chunk \<times> ready) list"
  | Running nat
  | PostStorage
  | PostCert
  | PostPolicy
  | PostIamSa
  | PostManifest
  | Delay
  | Finished

datatype request = CreateRequest create_payload | DeleteRequest delete_payload

text \<open>
  One record per inbound command: the closure of its handler. \<open>cluster\<close> and \<open>place\<close> are
  the variables \<^verbatim>\<open>clusterName\<close> and \<^verbatim>\<open>region\<close> as the templates print them.
\<close>

record flow =
  request :: request
  cluster :: string
  place :: string
  stage :: stage

text \<open>
  A subprocess started with \<^verbatim>\<open>spawn('eksctl', args)\<close>: its arguments, what was written to
  its stdin, whether the handler's listeners are still attached, whether it has emitted
  \<^verbatim>\<open>close\<close>, whether it has emitted \<^verbatim>\<open>error\<close>, whether it was sent SIGKILL, and the
  command whose handler spawned it.
\<close>

record eks_proc =
  args :: "string list"
  stdin :: "string option"
  attached :: bool
  exited :: bool
  failed :: bool
  killed :: bool
  flow_of :: nat

text \<open>
  The state of one \<^verbatim>\<open>eks-cli-stream\<close> connection. \<open>sends\<close> lists the calls of \<^verbatim>\<open>ws.send\<close>
  with the \<^verbatim>\<open>readyState\<close> at the call: a frame goes out only if the socket is open, and
  \<^verbatim>\<open>send\<close> on a closing or closed socket drops it without throwing. \<open>commands\<close> lists the
  command lines given to \<open>execPromise\<close> and \<open>executeCommand\<close>; \<open>timers\<close> counts the pending
  \<^verbatim>\<open>setTimeout(..., 1000)\<close> callbacks.
\<close>

record session =
  readyState :: ready
  sends :: "(ready \<times> frame) list"
  eksProcess :: "nat option"
  eksProcessExited :: bool
  procs :: "eks_proc list"
  flows :: "flow list"
  commands :: "string list"
  timers :: nat

datatype event =
    Message inbound
  | StsDone nat "string + string"
  | IamDone nat iam_outcome
  | CheckData nat chunk
  | CheckDone nat exit
  | ProcData nat chunk
  | ProcClose nat "int option"
  | ProcError nat string
  | HelperLog nat string
  | HelperDone nat helper_result
  | DelayDone nat
  | TimerFired
  | WsClose
  | WsError string

definition init :: session where
  "init = \<lparr>readyState = OPEN, sends = [], eksProcess = None, eksProcessExited = False,
            procs = [], flows = [], commands = [], timers = 0\<rparr>"

text \<open>The frames that went out on the socket, in order.\<close>

definition frames :: "session \<Rightarrow> frame list" where
  "frames s = map snd (filter (\<lambda>x. fst x = OPEN) (sends s))"

subsection \<open>The socket and the subprocess handle\<close>

definition ws_send :: "frame \<Rightarrow> session \<Rightarrow> session" where
  "ws_send f s = s\<lparr>sends := sends s @ [(readyState s, f)]\<rparr>"

definition ws_send_if_open :: "frame \<Rightarrow> session \<Rightarrow> session" where
  "ws_send_if_open f s = (if readyState s = OPEN then ws_send f s else s)"

definition ws_close :: "session \<Rightarrow> session" where
  "ws_close s = (if readyState s = OPEN then s\<lparr>readyState := CLOSING\<rparr> else s)"

definition cleanupEksProcessResources :: "session \<Rightarrow> session" where
  "cleanupEksProcessResources s =
     (case eksProcess s of
        None \<Rightarrow> s
      | Some p \<Rightarrow>
          s\<lparr>procs := (procs s)[p := (procs s ! p)
                  \<lparr>attached := False,
                   killed := killed (procs s ! p) \<or> \<not> eksProcessExited s\<rparr>],
            eksProcess := None\<rparr>)"

definition set_stage :: "nat \<Rightarrow> stage \<Rightarrow> session \<Rightarrow> session" where
  "set_stage i st s = s\<lparr>flows := (flows s)[i := (flows s ! i)\<lparr>stage := st\<rparr>]\<rparr>"

definition run_command :: "string \<Rightarrow> session \<Rightarrow> session" where
  "run_command c s = s\<lparr>commands := commands s @ [c]\<rparr>"

text \<open>
  \<^verbatim>\<open>ws.send(error frame); ws.close(); cleanupEksProcessResources(); return;\<close> ends a
  create command at each of its checks.
\<close>

definition abort :: "nat \<Rightarrow> string \<Rightarrow> session \<Rightarrow> session" where
  "abort i msg s =
     set_stage i Finished (cleanupEksProcessResources (ws_close (ws_send (Error msg) s)))"

subsection \<open>The texts of the frames and the command lines\<close>

definition quoted :: "string \<Rightarrow> string" where
  "quoted n = [CHR 0x27] @ n @ [CHR 0x27]"

text \<open>\<^verbatim>\<open>payload.clusterName.replace(/\s+/g, '-').toLowerCase()\<close>.\<close>

definition normalize_name :: "string \<Rightarrow> string" where
  "normalize_name n = toLowerCase (replace_ws_runs n)"

definition preflight_banner :: string where
  "preflight_banner = ''\<newline>--- Running pre-flight permission check for IAM role creation ---\<newline>''"

definition sts_command :: string where
  "sts_command = ''aws sts get-caller-identity --query Arn --output text''"

definition requiredPermissions :: "string list" where
  "requiredPermissions =
     [''iam:CreateRole'', ''iam:AttachRolePolicy'', ''iam:PutRolePolicy'', ''iam:CreateServiceLinkedRole'']"

definition checkIamPermsCmd :: "string \<Rightarrow> string" where
  "checkIamPermsCmd callerIdentityArn =
     ''aws iam simulate-principal-policy --policy-source-arn '' @ trim callerIdentityArn
     @ '' --action-names '' @ join '' '' requiredPermissions"

definition iam_failed_message :: "string \<Rightarrow> string" where
  "iam_failed_message e =
     ''Failed during IAM pre-flight check: '' @ e
     @ ''. This could be due to missing 'iam:SimulatePrincipalPolicy' or 'sts:GetCallerIdentity' permissions.''"

definition denied_results :: "eval_result list \<Rightarrow> eval_result list" where
  "denied_results rs = filter (\<lambda>res. EvalDecision res \<noteq> JStr ''allowed'') rs"

definition preflight_denied_message :: "eval_result list \<Rightarrow> string" where
  "preflight_denied_message denied =
     ''Pre-flight check failed. Missing permissions: ''
     @ join_values '', '' (map EvalActionName denied)
     @ ''. Please grant these permissions to your IAM user and try again.''"

definition iam_ok_text :: string where
  "iam_ok_text = ''IAM permission check successful. Proceeding with cluster creation.\<newline>''"

definition checking_text :: "string \<Rightarrow> string \<Rightarrow> string" where
  "checking_text n r =
     ''\<newline>Checking for existing cluster '' @ quoted n @ '' in region '' @ quoted r @ ''...\<newline>''"

definition checkCommand :: "string \<Rightarrow> string \<Rightarrow> string" where
  "checkCommand n r = ''eksctl get cluster --name='' @ n @ '' --region='' @ r @ '' --output json''"

definition already_exists_message :: "string \<Rightarrow> string \<Rightarrow> string" where
  "already_exists_message n r =
     ''Cluster '' @ quoted n @ '' already exists in region '' @ quoted r @ ''.''"

definition check_failed_message :: "string \<Rightarrow> string" where
  "check_failed_message e = ''Failed to check for existing cluster: '' @ e"

definition not_exists_text :: "string \<Rightarrow> string" where
  "not_exists_text n = ''Cluster '' @ quoted n @ '' does not exist. Proceeding with creation.\<newline>''"

definition config_text :: "string \<Rightarrow> string" where
  "config_text c =
     ''\<newline>--- Generated eksctl Configuration ---\<newline>'' @ c
     @ ''\<newline>------------------------------------\<newline>''"

definition create_args :: "string list" where
  "create_args = [''create'', ''cluster'', ''-f'', ''-'']"

definition delete_args :: "string \<Rightarrow> string \<Rightarrow> string list" where
  "delete_args n r = [''delete'', ''cluster'', ''--name='' @ n, ''--region='' @ r]"

definition waiting_text :: string where
  "waiting_text =
     ''\<newline>--- Waiting for 15 seconds for API server to stabilize before deploying monitoring stack... ---\<newline>''"

definition created_message :: "string \<Rightarrow> string" where
  "created_message n = ''Cluster '' @ quoted n @ '' and all selected add-ons created successfully.''"

definition creation_failed_message :: "int option \<Rightarrow> string" where
  "creation_failed_message code = ''Cluster creation failed with code '' @ code_toString code @ ''.''"

definition deleted_message :: "string \<Rightarrow> string" where
  "deleted_message n = ''Cluster '' @ quoted n @ '' deleted successfully.''"

definition deletion_failed_message :: "int option \<Rightarrow> string" where
  "deletion_failed_message code = ''Cluster deletion failed with code '' @ code_toString code @ ''.''"

definition no_iam_sa_text :: string where
  "no_iam_sa_text =
     red ''Could not create IAM Service Account for ALB. The controller will not function correctly.''
     @ ''\<newline>''"

definition no_cert_manager_text :: string where
  "no_cert_manager_text =
     red ''Failed to install cert-manager. Skipping ALB Controller installation.'' @ ''\<newline>''"

definition alb_error_text :: "string \<Rightarrow> string" where
  "alb_error_text e = red (''An error occurred during ALB Controller setup: '' @ e @ ''.'') @ ''\<newline>''"

subsection \<open>The handlers\<close>

text \<open>\<^verbatim>\<open>ws.on('message', ...)\<close> up to its first \<^verbatim>\<open>await\<close>, or to its end.\<close>

fun on_message :: "inbound \<Rightarrow> session \<Rightarrow> session" where
  "on_message (Malformed e) s =
     (if readyState s = OPEN
      then ws_close (ws_send (Error (''Invalid message format: '' @ e)) s)
      else s)"
| "on_message Other s = s"
| "on_message (Create payload) s =
     run_command sts_command
       (ws_send (Log preflight_banner)
          (s\<lparr>flows := flows s
                 @ [\<lparr>request = CreateRequest payload,
                     cluster = normalize_name (clusterName payload),
                     place = js_toString (region payload),
                     stage = AwaitSts\<rparr>]\<rparr>))"
| "on_message (Delete payload) s =
     s\<lparr>procs := procs s
           @ [\<lparr>args = delete_args (js_toString (del_clusterName payload))
                             (js_toString (del_region payload)),
               stdin = None, attached = True, exited = False, failed = False, killed = False,
               flow_of = length (flows s)\<rparr>],
       eksProcess := Some (length (procs s)),
       flows := flows s
           @ [\<lparr>request = DeleteRequest payload,
               cluster = js_toString (del_clusterName payload),
               place = js_toString (del_region payload),
               stage = Running (length (procs s))\<rparr>]\<rparr>"

text \<open>The create command after \<^verbatim>\<open>aws sts get-caller-identity\<close> has settled.\<close>

definition on_sts :: "nat \<Rightarrow> string + string \<Rightarrow> session \<Rightarrow> session" where
  "on_sts i r s =
     (case r of
        Inl e \<Rightarrow> abort i (iam_failed_message e) s
      | Inr callerIdentityArn \<Rightarrow>
          set_stage i AwaitIam (run_command (checkIamPermsCmd callerIdentityArn) s))"

text \<open>The create command after the IAM simulation: the pre-flight decision.\<close>

definition on_iam :: "nat \<Rightarrow> iam_outcome \<Rightarrow> session \<Rightarrow> session" where
  "on_iam i r s =
     (case r of
        IamThrew e \<Rightarrow> abort i (iam_failed_message e) s
      | IamEvaluated results \<Rightarrow>
          let denied = denied_results results in
          if length denied > 0 then abort i (preflight_denied_message denied) s
          else
            let f = flows s ! i in
            set_stage i (AwaitCheck [])
              (run_command (checkCommand (cluster f) (place f))
                 (ws_send (Log (checking_text (cluster f) (place f)))
                    (ws_send (Log iam_ok_text) s))))"

text \<open>A chunk of the existence check, streamed by \<open>executeCommand\<close>.\<close>

definition on_check_data :: "nat \<Rightarrow> (chunk \<times> ready) list \<Rightarrow> chunk \<Rightarrow> session \<Rightarrow> session" where
  "on_check_data i seen c s =
     set_stage i (AwaitCheck (seen @ [(c, readyState s)]))
       (case c of
          Stdout d \<Rightarrow> ws_send_if_open (Log d) s
        | Stderr d \<Rightarrow> ws_send_if_open (Log (red d)) s)"

text \<open>
  The create command after the existence check has resolved: the conflict decision, the
  configuration and the spawn of \<^verbatim>\<open>eksctl create cluster -f -\<close>.
\<close>

definition spawn_create :: "nat \<Rightarrow> create_payload \<Rightarrow> session \<Rightarrow> session" where
  "spawn_create i payload s =
     (let clusterConfigFileContent = generateEksClusterConfig payload;
          s1 = ws_send (Log (config_text clusterConfigFileContent)) s;
          p = length (procs s1)
      in set_stage i (Running p)
           (s1\<lparr>procs := procs s1
                   @ [\<lparr>args = create_args, stdin = Some clusterConfigFileContent,
                       attached = True, exited = False, failed = False, killed = False,
                       flow_of = i\<rparr>],
               eksProcess := Some p\<rparr>))"

definition on_check :: "nat \<Rightarrow> (chunk \<times> ready) list \<Rightarrow> exit \<Rightarrow> session \<Rightarrow> session" where
  "on_check i seen ex s =
     (let f = flows s ! i;
          checkResult = fst (executeCommand \<lparr>events = seen, finish = ex\<rparr>)
      in case checkResult of
           Success out \<Rightarrow> abort i (already_exists_message (cluster f) (place f)) s
         | Failure e \<Rightarrow>
             if e \<noteq> [] \<and> \<not> str_includes e ''ResourceNotFoundException''
             then abort i (check_failed_message e) s
             else
               (case request f of
                  CreateRequest payload \<Rightarrow>
                    spawn_create i payload (ws_send (Log (not_exists_text (cluster f))) s)
                | DeleteRequest _ \<Rightarrow> s))"

text \<open>The \<^verbatim>\<open>data\<close> listeners of the subprocess, of a create and of a delete alike.\<close>

definition on_proc_data :: "chunk \<Rightarrow> session \<Rightarrow> session" where
  "on_proc_data c s =
     (case c of
        Stdout d \<Rightarrow> ws_send_if_open (Log d) s
      | Stderr d \<Rightarrow> ws_send_if_open (Log (red d)) s)"

text \<open>
  The end of a command: the terminal frame, the timer that closes the socket a second
  later, and the cleanup.
\<close>

definition finish_with :: "nat \<Rightarrow> frame \<Rightarrow> session \<Rightarrow> session" where
  "finish_with i f s =
     set_stage i Finished
       (cleanupEksProcessResources ((ws_send f s)\<lparr>timers := Suc (timers s)\<rparr>))"

text \<open>
  The \<^verbatim>\<open>close\<close> listener of the subprocess. After a successful creation on an open socket
  it awaits \<^verbatim>\<open>applyDefaultStorageClass\<close> before anything else.
\<close>

definition on_proc_close :: "nat \<Rightarrow> int option \<Rightarrow> session \<Rightarrow> session" where
  "on_proc_close p code s0 =
     (let s = s0\<lparr>eksProcessExited := True\<rparr>;
          i = flow_of (procs s ! p);
          f = flows s ! i
      in if readyState s = OPEN then
           (case request f of
              CreateRequest payload \<Rightarrow>
                if code = Some 0 then set_stage i PostStorage s
                else finish_with i (Error (creation_failed_message code)) s
            | DeleteRequest payload \<Rightarrow>
                if code = Some 0 then finish_with i (Complete (deleted_message (cluster f))) s
                else finish_with i (Error (deletion_failed_message code)) s)
         else set_stage i Finished (cleanupEksProcessResources s))"

text \<open>The \<^verbatim>\<open>error\<close> listener of the subprocess.\<close>

definition on_proc_error :: "nat \<Rightarrow> string \<Rightarrow> session \<Rightarrow> session" where
  "on_proc_error p e s0 =
     (let s = s0\<lparr>eksProcessExited := True\<rparr>;
          i = flow_of (procs s ! p);
          text = (case request (flows s ! i) of
                    CreateRequest _ \<Rightarrow> ''Failed to spawn EKS process: '' @ e
                  | DeleteRequest _ \<Rightarrow> ''Failed to spawn EKS delete process: '' @ e);
          s1 = (if readyState s = OPEN then ws_close (ws_send (Error text) s) else s)
      in set_stage i Finished (cleanupEksProcessResources s1))"

text \<open>
  The post-creation steps, each resumed when the helper it awaits settles. A helper that
  throws inside the \<^verbatim>\<open>try\<close> is reported as a log frame; \<^verbatim>\<open>applyDefaultStorageClass\<close> is
  awaited outside of it, so if it throws the listener ends there.
\<close>

definition to_delay :: "nat \<Rightarrow> session \<Rightarrow> session" where
  "to_delay i s = set_stage i Delay (ws_send (Log waiting_text) s)"

definition on_helper :: "nat \<Rightarrow> stage \<Rightarrow> helper_result \<Rightarrow> session \<Rightarrow> session" where
  "on_helper i st r s =
     (let albIngress = (case request (flows s ! i) of
                          CreateRequest payload \<Rightarrow> truthy (albIngressAccess payload)
                        | DeleteRequest _ \<Rightarrow> False)
      in if st = PostStorage then
           (case r of
              Returned v \<Rightarrow> if albIngress then set_stage i PostCert s else to_delay i s
            | Threw e \<Rightarrow> set_stage i Finished s)
         else
           (case r of
              Threw e \<Rightarrow> to_delay i (ws_send (Log (alb_error_text e)) s)
            | Returned v \<Rightarrow>
                if st = PostCert then
                  (if truthy v then set_stage i PostPolicy s
                   else to_delay i (ws_send (Log no_cert_manager_text) s))
                else if st = PostPolicy then set_stage i PostIamSa s
                else if st = PostIamSa then
                  (if truthy v then set_stage i PostManifest s
                   else to_delay i (ws_send (Log no_iam_sa_text) s))
                else to_delay i s))"

definition on_delay :: "nat \<Rightarrow> session \<Rightarrow> session" where
  "on_delay i s = finish_with i (Complete (created_message (cluster (flows s ! i)))) s"

text \<open>\<^verbatim>\<open>ws.on('close', ...)\<close> and \<^verbatim>\<open>ws.on('error', ...)\<close>.\<close>

definition on_ws_close :: "session \<Rightarrow> session" where
  "on_ws_close s = cleanupEksProcessResources (s\<lparr>readyState := CLOSED\<rparr>)"

definition on_ws_error :: "string \<Rightarrow> session \<Rightarrow> session" where
  "on_ws_error e s0 =
     (let s = cleanupEksProcessResources s0
      in if readyState s = OPEN then ws_close (ws_send (Error (''WebSocket error: '' @ e)) s)
         else s)"

text \<open>The callback of \<^verbatim>\<open>setTimeout(() => { if (ws.readyState === OPEN) ws.close(); }, 1000)\<close>.\<close>

definition on_timer :: "session \<Rightarrow> session" where
  "on_timer s = ws_close (s\<lparr>timers := timers s - 1\<rparr>)"

subsection \<open>The event loop\<close>

text \<open>
  One event at a time, each handled to its next \<^verbatim>\<open>await\<close>. An event that cannot occur in
  the state (a promise that nobody awaits, output of a subprocess that has closed, a
  message on a closed socket) leaves the state as it is; an event of a subprocess whose
  listeners have been removed changes the subprocess only.
\<close>

definition in_post :: "stage \<Rightarrow> bool" where
  "in_post st = (st = PostStorage \<or> st = PostCert \<or> st = PostPolicy \<or> st = PostIamSa \<or> st = PostManifest)"

definition stage_of :: "session \<Rightarrow> nat \<Rightarrow> stage option" where
  "stage_of s i = (if i < length (flows s) then Some (stage (flows s ! i)) else None)"

definition proc_alive :: "session \<Rightarrow> nat \<Rightarrow> bool" where
  "proc_alive s p = (p < length (procs s) \<and> \<not> exited (procs s ! p))"

definition mark_proc :: "nat \<Rightarrow> (eks_proc \<Rightarrow> eks_proc) \<Rightarrow> session \<Rightarrow> session" where
  "mark_proc p g s = s\<lparr>procs := (procs s)[p := g (procs s ! p)]\<rparr>"

fun step :: "session \<Rightarrow> event \<Rightarrow> session" where
  "step s (Message m) = (if readyState s = CLOSED then s else on_message m s)"
| "step s (StsDone i r) = (if stage_of s i = Some AwaitSts then on_sts i r s else s)"
| "step s (IamDone i r) = (if stage_of s i = Some AwaitIam then on_iam i r s else s)"
| "step s (CheckData i c) =
     (case stage_of s i of Some (AwaitCheck seen) \<Rightarrow> on_check_data i seen c s | _ \<Rightarrow> s)"
| "step s (CheckDone i ex) =
     (case stage_of s i of Some (AwaitCheck seen) \<Rightarrow> on_check i seen ex s | _ \<Rightarrow> s)"
| "step s (ProcData p c) =
     (if proc_alive s p \<and> attached (procs s ! p) then on_proc_data c s else s)"
| "step s (ProcClose p code) =
     (if proc_alive s p then
        (let s1 = mark_proc p (\<lambda>q. q\<lparr>exited := True\<rparr>) s
         in if attached (procs s ! p) then on_proc_close p code s1 else s1)
      else s)"
| "step s (ProcError p e) =
     (if proc_alive s p \<and> \<not> failed (procs s ! p) then
        (let s1 = mark_proc p (\<lambda>q. q\<lparr>failed := True\<rparr>) s
         in if attached (procs s ! p) then on_proc_error p e s1 else s1)
      else s)"
| "step s (HelperLog i t) =
     (case stage_of s i of
        Some st \<Rightarrow> if in_post st then ws_send_if_open (Log t) s else s
      | None \<Rightarrow> s)"
| "step s (HelperDone i r) =
     (case stage_of s i of
        Some st \<Rightarrow> if in_post st then on_helper i st r s else s
      | None \<Rightarrow> s)"
| "step s (DelayDone i) = (if stage_of s i = Some Delay then on_delay i s else s)"
| "step s TimerFired = (if timers s > 0 then on_timer s else s)"
| "step s WsClose = (if readyState s = CLOSED then s else on_ws_close s)"
| "step s (WsError e) = (if readyState s = CLOSED then s else on_ws_error e s)"

definition run_events :: "session \<Rightarrow> event list \<Rightarrow> session" where
  "run_events s evs = foldl step s evs"

subsection \<open>Vocabulary for the properties\<close>

fun is_message :: "event \<Rightarrow> bool" where
  "is_message (Message _) = True"
| "is_message _ = False"

fun is_ws_error :: "event \<Rightarrow> bool" where
  "is_ws_error (WsError _) = True"
| "is_ws_error _ = False"

text \<open>A session in which the client sends at most one message.\<close>

definition single_command :: "event list \<Rightarrow> bool" where
  "single_command evs = (length (filter is_message evs) \<le> 1)"

fun is_terminal :: "frame \<Rightarrow> bool" where
  "is_terminal (Log _) = False"
| "is_terminal (Complete _) = True"
| "is_terminal (Error _) = True"

text \<open>
  The ordering of the specification, as stated: log frames, then exactly one terminal
  frame, which is the last frame.
\<close>

definition logs_then_one_terminal :: "frame list \<Rightarrow> bool" where
  "logs_then_one_terminal fs =
     (fs \<noteq> [] \<and> is_terminal (last fs) \<and> list_all (\<lambda>f. \<not> is_terminal f) (butlast fs))"

text \<open>The ordering that holds: log frames, then at most one terminal frame, which is the last.\<close>

fun logs_then_terminal :: "frame list \<Rightarrow> bool" where
  "logs_then_terminal [] = True"
| "logs_then_terminal [f] = True"
| "logs_then_terminal (f # g # fs) = (\<not> is_terminal f \<and> logs_then_terminal (g # fs))"

text \<open>A subprocess that runs: spawned, not closed, not failed to spawn, not killed.\<close>

definition running :: "session \<Rightarrow> nat \<Rightarrow> bool" where
  "running s p =
     (p < length (procs s) \<and> \<not> exited (procs s ! p) \<and> \<not> failed (procs s ! p)
      \<and> \<not> killed (procs s ! p))"

subsection \<open>Invariants of a session with one command\<close>

text \<open>
  The stages before the subprocess of a create command exists; and what holds of the
  subprocess of the session, if there is one: it belongs to the only command, the handle
  \<^verbatim>\<open>eksProcess\<close> points to it exactly while its listeners are attached, it is attached as long
  as it runs, and \<^verbatim>\<open>eksProcessExited\<close> is set only after it has closed or failed.
\<close>

definition prespawn :: "stage \<Rightarrow> bool" where
  "prespawn st = (case st of AwaitSts \<Rightarrow> True | AwaitIam \<Rightarrow> True | AwaitCheck _ \<Rightarrow> True | _ \<Rightarrow> False)"

definition proc_ok :: "session \<Rightarrow> eks_proc \<Rightarrow> bool" where
  "proc_ok s q =
     (flow_of q = 0
      \<and> eksProcess s = (if attached q then Some 0 else None)
      \<and> (\<not> exited q \<and> \<not> failed q \<and> \<not> killed q \<longrightarrow> attached q)
      \<and> (eksProcessExited s \<longrightarrow> exited q \<or> failed q))"

definition structural :: "session \<Rightarrow> bool" where
  "structural s =
     (case flows s of
        [] \<Rightarrow> procs s = [] \<and> eksProcess s = None \<and> \<not> eksProcessExited s
      | [f] \<Rightarrow>
          (case procs s of
             [] \<Rightarrow> eksProcess s = None \<and> \<not> eksProcessExited s
           | [q] \<Rightarrow> \<not> prespawn (stage f) \<and> proc_ok s q
           | _ \<Rightarrow> False)
      | _ \<Rightarrow> False)"

text \<open>
  A session is \<^emph>\<open>dead\<close> when its socket is no longer open, it has no subprocess, and its command
  has run to its end: nothing but a new message makes such a session act again.
\<close>

definition dead :: "session \<Rightarrow> bool" where
  "dead s = (readyState s \<noteq> OPEN \<and> procs s = [] \<and> list_all (\<lambda>f. stage f = Finished) (flows s))"

text \<open>
  The commands run on behalf of a create request up to its IAM simulation: while the request
  awaits the caller identity only \<^verbatim>\<open>aws sts get-caller-identity\<close> has been run, and while it awaits
  the simulation only that command and the simulation itself.
\<close>

definition pre_ok :: "session \<Rightarrow> bool" where
  "pre_ok s =
     ((flows s = [] \<longrightarrow> commands s = [])
      \<and> (\<forall>f. flows s = [f] \<longrightarrow>
            (stage f = AwaitSts \<longrightarrow> commands s = [sts_command])
            \<and> (stage f = AwaitIam \<longrightarrow> (\<exists>arn. commands s = [sts_command, checkIamPermsCmd arn]))))"


section \<open>Concrete scenarios\<close>

text \<open>
  Environments at which the properties below are evaluated: a command that exits with
  code 1 without output, run on a socket that stays closed, and on one that stays open.
\<close>

definition failing_run :: stream_run where
  "failing_run = \<lparr>events = [], finish = Closed (Some 1)\<rparr>"

definition env_fail_closed :: "nat \<Rightarrow> attempt" where
  "env_fail_closed i = \<lparr>run = failing_run, ready_after = CLOSED\<rparr>"

definition env_fail_open :: "nat \<Rightarrow> attempt" where
  "env_fail_open i = \<lparr>run = failing_run, ready_after = OPEN\<rparr>"

text \<open>
  A create request for a cluster named \<^verbatim>\<open>MyCluster\<close> in \<^verbatim>\<open>us-east-1\<close>, a delete request for
  the same name, and the events of their sessions.
\<close>

definition example_payload :: create_payload where
  "example_payload =
     \<lparr>clusterName = ''MyCluster'', region = JStr ''us-east-1'', kubernetesVersion = JStr ''1.29'',
      nodeGroupName = JStr ''workers'', instanceType = JStr ''t3.medium'',
      desiredCapacity = JNum 2, minNodes = JNum 1, maxNodes = JNum 3, volumeSize = JNum 20,
      volumeType = JStr ''gp3'', enableSsh = JBool False, sshKeyName = JUndefined,
      enableEbsCsiAccess = JBool False, enableEfsCsiAccess = JBool False,
      albIngressAccess = JBool False\<rparr>"

definition example_delete :: delete_payload where
  "example_delete = \<lparr>del_clusterName = JStr ''MyCluster'', del_region = JStr ''us-east-1''\<rparr>"

definition example_arn :: string where
  "example_arn = ''arn:aws:iam::123456789012:user/dev''"

definition all_allowed :: "eval_result list" where
  "all_allowed =
     map (\<lambda>a. \<lparr>EvalActionName = JStr a, EvalDecision = JStr ''allowed''\<rparr>) requiredPermissions"

definition create_role_denied :: "eval_result list" where
  "create_role_denied =
     [\<lparr>EvalActionName = JStr ''iam:CreateRole'', EvalDecision = JStr ''explicitDeny''\<rparr>,
      \<lparr>EvalActionName = JStr ''iam:AttachRolePolicy'', EvalDecision = JStr ''allowed''\<rparr>,
      \<lparr>EvalActionName = JStr ''iam:PutRolePolicy'', EvalDecision = JStr ''allowed''\<rparr>,
      \<lparr>EvalActionName = JStr ''iam:CreateServiceLinkedRole'', EvalDecision = JStr ''allowed''\<rparr>]"

definition not_found_exit :: exit where
  "not_found_exit = Closed (Some 1)"

definition not_found_chunk :: chunk where
  "not_found_chunk = Stderr ''Error: ResourceNotFoundException: No cluster found for name: mycluster.''"

text \<open>The create request up to the running \<^verbatim>\<open>eksctl create cluster\<close>.\<close>

definition creation_started :: "event list" where
  "creation_started =
     [Message (Create example_payload), StsDone 0 (Inr example_arn), IamDone 0 (IamEvaluated all_allowed),
      CheckData 0 not_found_chunk, CheckDone 0 not_found_exit]"

text \<open>
  The create request up to the pending IAM simulation, and events that arrive after the
  simulation was denied.
\<close>

definition preflight_pending :: "event list" where
  "preflight_pending = [Message (Create example_payload), StsDone 0 (Inr example_arn)]"

definition after_denial :: "event list" where
  "after_denial = [CheckDone 0 not_found_exit, TimerFired, WsClose]"

text \<open>A delete whose client disconnects after the first line of output.\<close>

definition delete_disconnected :: "event list" where
  "delete_disconnected =
     [Message (Delete example_delete), ProcData 0 (Stdout ''deleting cluster''), WsClose]"

section \<open>Properties of the response cache\<close>

text \<open>
  C6. For every key, ttl and forceRefresh flag: \<open>getCachedData\<close> returns the stored value
  exactly when an entry for the key exists, forceRefresh is falsy and
  \<open>now - storedAt \<le> ttl\<close>, and returns null (absent) in every other case; it returns
  null whenever forceRefresh is truthy, however fresh the entry is; and \<open>setCacheData\<close>
  overwrites the entry of its key, whatever was there, with the value and the current
  time, leaving every other key alone.
\<close>

theorem cache_get_set:
  "getCachedData cache now key ttl fr =
     (case cache key of
        None \<Rightarrow> JNull
      | Some entry \<Rightarrow>
          if \<not> truthy fr \<and> now - timestamp entry \<le> ttl then data entry else JNull)
   \<and> (truthy fr \<longrightarrow> getCachedData cache now key ttl fr = JNull)
   \<and> setCacheData cache now key d key = Some \<lparr>data = d, timestamp = now\<rparr>
   \<and> (\<forall>k. k \<noteq> key \<longrightarrow> setCacheData cache now key d k = cache k)"
  by (auto simp: getCachedData_def setCacheData_def Let_def split: option.splits)

theorem cache_get_set_witness:
  "truthy (JStr ''false'') \<and> ''pods'' \<noteq> ''nodes''
   \<and> getCachedData [''nodes'' \<mapsto> \<lparr>data = JNum 7, timestamp = 1000\<rparr>] 1000 ''nodes'' 30000 (JStr ''false'') = JNull
   \<and> setCacheData [''nodes'' \<mapsto> \<lparr>data = JNum 7, timestamp = 1000\<rparr>] 1000 ''nodes'' (JNum 9) ''nodes''
       = Some \<lparr>data = JNum 9, timestamp = 1000\<rparr>
   \<and> setCacheData [''nodes'' \<mapsto> \<lparr>data = JNum 7, timestamp = 1000\<rparr>] 1000 ''nodes'' (JNum 9) ''pods'' = None"
  using cache_get_set [where cache = "[''nodes'' \<mapsto> \<lparr>data = JNum 7, timestamp = 1000\<rparr>]" and now = 1000
      and key = "''nodes''" and ttl = 30000 and fr = "JStr ''false''" and d = "JNum 9"]
  by simp

section \<open>Properties of the one-shot executor\<close>

lemma trim_id:
  assumes "s \<noteq> []" "\<not> isWhiteSpace (hd s)" "\<not> isWhiteSpace (last s)"
  shows "trim s = s"
proof -
  from assms(1,2) have a: "dropWhile isWhiteSpace s = s"
    by (cases s) auto
  from assms(1,3) have b: "dropWhile isWhiteSpace (rev s) = rev s"
    by (cases "rev s") (auto simp: last_rev hd_rev[symmetric] dest!: arg_cong[where f=hd])
  show ?thesis by (simp add: trim_def a b)
qed

lemma digit_char_not_ws: "n < 10 \<Longrightarrow> \<not> isWhiteSpace (digit_char n)"
  by (auto simp: numeral_eq_Suc less_Suc_eq digit_char_def isWhiteSpace_def)

lemma digits_of_last: "digits_of n \<noteq> [] \<and> \<not> isWhiteSpace (last (digits_of n))"
  by (subst (1 2) digits_of.simps) (simp add: digit_char_not_ws)

lemma number_toString_last:
  "number_toString i \<noteq> [] \<and> \<not> isWhiteSpace (last (number_toString i))"
  by (simp add: number_toString_def digits_of_last)

lemma code_toString_last:
  "code_toString c \<noteq> [] \<and> \<not> isWhiteSpace (last (code_toString c))"
proof (cases c)
  case None
  then show ?thesis by (simp add: code_toString_def isWhiteSpace_def)
next
  case (Some n)
  then show ?thesis by (simp add: code_toString_def number_toString_last)
qed

lemma trim_exit_code_message: "trim (exit_code_message c) = exit_code_message c"
proof (rule trim_id)
  show "exit_code_message c \<noteq> []" by (simp add: exit_code_message_def)
  show "\<not> isWhiteSpace (hd (exit_code_message c))"
    by (simp add: exit_code_message_def isWhiteSpace_def)
  have "last (exit_code_message c) = last (code_toString c)"
    using code_toString_last[of c] by (simp only: exit_code_message_def last_append if_False)
  then show "\<not> isWhiteSpace (last (exit_code_message c))"
    using code_toString_last[of c] by simp
qed


lemma stdoutBuffer_concat:
  "stdoutBuffer cs = concat (map (\<lambda>c. case c of Stdout d \<Rightarrow> d | Stderr d \<Rightarrow> []) cs)"
  by (induction cs rule: stdoutBuffer.induct) simp_all

lemma stderrBuffer_concat:
  "stderrBuffer cs = concat (map (\<lambda>c. case c of Stdout d \<Rightarrow> [] | Stderr d \<Rightarrow> d) cs)"
  by (induction cs rule: stderrBuffer.induct) simp_all

text \<open>
  What \<open>trim\<close> returns: the string without a prefix and a suffix of white space, with no
  white space left at either end.
\<close>

lemma trim_splits:
  "s = takeWhile isWhiteSpace s @ trim s
         @ rev (takeWhile isWhiteSpace (rev (dropWhile isWhiteSpace s)))"
proof -
  let ?d = "dropWhile isWhiteSpace s"
  have "rev ?d = takeWhile isWhiteSpace (rev ?d) @ dropWhile isWhiteSpace (rev ?d)"
    by simp
  then have "rev (rev ?d) = rev (takeWhile isWhiteSpace (rev ?d) @ dropWhile isWhiteSpace (rev ?d))"
    by simp
  then have "?d = trim s @ rev (takeWhile isWhiteSpace (rev ?d))"
    by (simp only: rev_rev_ident rev_append trim_def)
  moreover have "s = takeWhile isWhiteSpace s @ ?d" by simp
  ultimately show ?thesis by simp
qed

lemma trim_ends:
  assumes "trim s \<noteq> []"
  shows "\<not> isWhiteSpace (hd (trim s))" and "\<not> isWhiteSpace (last (trim s))"
proof -
  define d where "d = dropWhile isWhiteSpace s"
  define e where "e = dropWhile isWhiteSpace (rev d)"
  have t: "trim s = rev e" by (simp add: trim_def d_def e_def)
  with assms have e: "e \<noteq> []" by simp
  then have "\<not> isWhiteSpace (hd e)"
    unfolding e_def by (rule hd_dropWhile)
  with e show "\<not> isWhiteSpace (last (trim s))"
    by (simp add: t last_rev)
  have d: "d \<noteq> []"
  proof
    assume "d = []"
    then have "e = []" by (simp add: e_def)
    with e show False by simp
  qed
  then have hd: "\<not> isWhiteSpace (hd d)"
    unfolding d_def by (rule hd_dropWhile)
  have "rev d = takeWhile isWhiteSpace (rev d) @ e"
    by (simp add: e_def)
  then have "rev (rev d) = rev (takeWhile isWhiteSpace (rev d) @ e)"
    by (rule arg_cong)
  then have "d = trim s @ rev (takeWhile isWhiteSpace (rev d))"
    by (simp only: rev_rev_ident rev_append t)
  with assms have "hd d = hd (trim s)"
    by (metis hd_append2)
  with hd show "\<not> isWhiteSpace (hd (trim s))" by simp
qed

text \<open>The decimal digits of a number denote that number.\<close>

lemma digit_char_value: "n < 10 \<Longrightarrow> of_char (digit_char n) = (48 + n :: nat)"
  by (auto simp: numeral_eq_Suc less_Suc_eq digit_char_def)

lemma digits_of_value:
  "foldl (\<lambda>acc c. 10 * acc + (of_char c - 48)) 0 (digits_of n) = n"
proof (induction n rule: digits_of.induct)
  case (1 n)
  show ?case
  proof (cases "n < 10")
    case True
    then show ?thesis
      by (subst digits_of.simps) (simp add: digit_char_value)
  next
    case False
    with 1 have "foldl (\<lambda>acc c. 10 * acc + (of_char c - 48)) 0 (digits_of (n div 10)) = n div 10"
      by simp
    with False show ?thesis
      by (subst digits_of.simps) (simp add: digit_char_value)
  qed
qed

text \<open>
  C7. For every command, once the process has closed, \<open>execPromise\<close> resolves with the
  trimmed accumulated stdout (the concatenation of the stdout chunks, in order) when the
  exit code is 0; on any other code it rejects with an error whose message is the trimmed
  stderr (the concatenation of the stderr chunks), or the trimmed stdout if stderr is
  empty, or the generic message "Command exited with code N" if both are empty, in that
  priority.
\<close>

theorem execPromise_exit:
  "ending r = Closed code \<Longrightarrow>
   execPromise command r =
     (let out = concat (map (\<lambda>c. case c of Stdout d \<Rightarrow> d | Stderr d \<Rightarrow> []) (chunks r));
          err = concat (map (\<lambda>c. case c of Stdout d \<Rightarrow> [] | Stderr d \<Rightarrow> d) (chunks r))
      in if code = Some 0 then Inr (trim out)
         else if err \<noteq> [] then Inl (trim err)
         else if out \<noteq> [] then Inl (trim out)
         else Inl (''Command exited with code ''
                   @ (case code of None \<Rightarrow> ''null'' | Some n \<Rightarrow> number_toString n)))"
  unfolding stdoutBuffer_concat[symmetric] stderrBuffer_concat[symmetric]
  by (simp add: execPromise_def str_or_def trim_exit_code_message Let_def)
     (simp add: exit_code_message_def code_toString_def)

theorem execPromise_exit_witness:
  "execPromise ''kubectl get pods''
     \<lparr>chunks = [Stdout '' po'', Stderr ''warn'', Stdout ''ds\<newline>''], ending = Closed (Some 0)\<rparr>
     = Inr ''pods''
   \<and> execPromise ''kubectl get pods''
        \<lparr>chunks = [Stdout ''partial '', Stderr '' boom'', Stderr ''\<newline>''], ending = Closed (Some 1)\<rparr>
     = Inl ''boom''
   \<and> execPromise ''kubectl get pods''
        \<lparr>chunks = [Stdout '' only '', Stdout ''out ''], ending = Closed (Some 2)\<rparr>
     = Inl ''only out''
   \<and> execPromise ''kubectl get pods'' \<lparr>chunks = [], ending = Closed (Some 12)\<rparr>
     = Inl ''Command exited with code 12''
   \<and> execPromise ''kubectl get pods'' \<lparr>chunks = [], ending = Closed None\<rparr>
     = Inl ''Command exited with code null''"
proof -
  have e: "ending \<lparr>chunks = cs, ending = Closed c\<rparr> = Closed c" for cs c
    by simp
  note t = execPromise_exit [OF e, of "''kubectl get pods''"]
  show ?thesis
    by (simp add: t trim_def isWhiteSpace_def number_toString_def digits_of.simps digit_char_def)
qed

section \<open>Properties of the JSON extraction\<close>


lemma lit_after_tails_empty:
  "concat (map (rx_match (Lit c)) (tails_greedy xs)) = [] \<longleftrightarrow> c \<notin> set xs"
  by (induction xs) (auto split: list.splits)

lemma lit_after_tails_step:
  "concat (map (rx_match (Lit c)) (tails_greedy (x # xs))) =
     concat (map (rx_match (Lit c)) (tails_greedy xs)) @ (if x = c then [xs] else [])"
  by simp

lemma lit_after_tails_hd:
  "c \<in> set xs \<Longrightarrow>
   \<exists>ys. concat (map (rx_match (Lit c)) (tails_greedy xs)) = rev (takeWhile (\<lambda>x. x \<noteq> c) (rev xs)) # ys"
proof (induction xs)
  case Nil
  then show ?case by simp
next
  case (Cons x xs)
  let ?L = "concat (map (rx_match (Lit c)) (tails_greedy xs))"
  show ?case
  proof (cases "c \<in> set xs")
    case True
    from Cons.IH[OF True] obtain ys where ys: "?L = rev (takeWhile (\<lambda>x. x \<noteq> c) (rev xs)) # ys"
      by blast
    from True have t: "takeWhile (\<lambda>x. x \<noteq> c) (rev (x # xs)) = takeWhile (\<lambda>x. x \<noteq> c) (rev xs)"
      by (simp add: takeWhile_append1)
    have "concat (map (rx_match (Lit c)) (tails_greedy (x # xs))) =
            rev (takeWhile (\<lambda>x. x \<noteq> c) (rev (x # xs))) # (ys @ (if x = c then [xs] else []))"
      by (simp only: lit_after_tails_step ys t append_Cons)
    then show ?thesis by blast
  next
    case False
    with Cons.prems have xc: "x = c" by simp
    from False have e: "?L = []"
      by (simp only: lit_after_tails_empty not_False_eq_True)
    have "takeWhile (\<lambda>x. x \<noteq> c) (rev xs @ [c]) = rev xs @ takeWhile (\<lambda>x. x \<noteq> c) [c]"
      by (rule takeWhile_append2) (use False in auto)
    then have c2: "rev (takeWhile (\<lambda>x. x \<noteq> c) (rev (x # xs))) = xs"
      by (simp add: xc)
    have c1: "concat (map (rx_match (Lit c)) (tails_greedy (x # xs))) = [xs]"
      using e xc by (simp only: lit_after_tails_step) simp
    show ?thesis unfolding c1 c2 by simp
  qed
qed

lemma through_last_split:
  "through_last c xs @ rev (takeWhile (\<lambda>x. x \<noteq> c) (rev xs)) = xs"
proof -
  have "rev (takeWhile (\<lambda>x. x \<noteq> c) (rev xs) @ dropWhile (\<lambda>x. x \<noteq> c) (rev xs)) = xs"
    by simp
  then show ?thesis by (simp only: rev_append through_last_def)
qed

lemma take_through_last:
  "take (length xs - length (rev (takeWhile (\<lambda>x. x \<noteq> c) (rev xs)))) xs = through_last c xs"
proof -
  let ?a = "through_last c xs" and ?b = "rev (takeWhile (\<lambda>x. x \<noteq> c) (rev xs))"
  have xs: "?a @ ?b = xs" by (rule through_last_split)
  then have "length xs - length ?b = length ?a"
    by (metis add_diff_cancel_right' length_append)
  then have "take (length xs - length ?b) xs = take (length ?a) (?a @ ?b)"
    using xs by simp
  then show ?thesis by simp
qed

lemma take_Suc_through_last:
  "take (Suc (length xs) - length (takeWhile (\<lambda>x. x \<noteq> c) (rev xs))) (a # xs) = a # through_last c xs"
proof -
  have le: "length (takeWhile (\<lambda>x. x \<noteq> c) (rev xs)) \<le> length xs"
    by (metis length_takeWhile_le length_rev)
  have "take (length xs - length (takeWhile (\<lambda>x. x \<noteq> c) (rev xs))) xs = through_last c xs"
    using take_through_last[of xs c] by simp
  with le show ?thesis by (simp add: Suc_diff_le)
qed

lemma bracket_exec:
  "rx_exec (Seq (Lit a) (Seq AnyStar (Lit c))) (x # xs) =
     (if x = a \<and> c \<in> set xs then Some (x # through_last c xs) else None)"
proof (cases "x = a \<and> c \<in> set xs")
  case True
  then obtain ys where
    ys: "concat (map (rx_match (Lit c)) (tails_greedy xs)) = rev (takeWhile (\<lambda>x. x \<noteq> c) (rev xs)) # ys"
    using lit_after_tails_hd by blast
  have "rx_match (Seq (Lit a) (Seq AnyStar (Lit c))) (x # xs) = concat (map (rx_match (Lit c)) (tails_greedy xs))"
    using True by simp
  with True ys show ?thesis
    by (simp only: rx_exec_def list.case length_rev take_Suc_through_last list.size if_True
        refl simp_thms) (simp add: take_Suc_through_last)
next
  case False
  have "rx_match (Seq (Lit a) (Seq AnyStar (Lit c))) (x # xs) =
          (if x = a then concat (map (rx_match (Lit c)) (tails_greedy xs)) else [])"
    by simp
  moreover have "x = a \<Longrightarrow> concat (map (rx_match (Lit c)) (tails_greedy xs)) = []"
    using False lit_after_tails_empty[of c xs] by blast
  ultimately have "rx_match (Seq (Lit a) (Seq AnyStar (Lit c))) (x # xs) = []"
    by (simp del: rx_match.simps)
  with False show ?thesis
    by (simp add: rx_exec_def del: rx_match.simps)
qed

lemma json_exec_Nil: "rx_exec json_pattern [] = None"
  by (simp add: rx_exec_def json_pattern_def)

lemma json_exec_Cons:
  "rx_exec json_pattern (x # xs) =
     (if x = CHR ''{'' \<and> CHR ''}'' \<in> set xs then Some (x # through_last CHR ''}'' xs)
      else if x = CHR ''['' \<and> CHR '']'' \<in> set xs then Some (x # through_last CHR '']'' xs)
      else None)"
proof -
  let ?A = "Seq (Lit CHR ''{'') (Seq AnyStar (Lit CHR ''}''))"
  let ?B = "Seq (Lit CHR ''['') (Seq AnyStar (Lit CHR '']''))"
  have alt: "rx_exec (Alt ?A ?B) (x # xs) =
        (case rx_exec ?A (x # xs) of Some m \<Rightarrow> Some m | None \<Rightarrow> rx_exec ?B (x # xs))"
    by (simp add: rx_exec_def split: list.splits)
  show ?thesis
    unfolding json_pattern_def alt bracket_exec by simp
qed

lemma json_search_spec:
  "map_option snd (rx_search json_pattern s) = spec_bracketed_substring s"
  by (induction s) (auto simp: json_exec_Nil json_exec_Cons split: option.splits)

lemma json_search_nonempty:
  "rx_search json_pattern s = Some (i, m) \<Longrightarrow> m \<noteq> []"
proof -
  assume a: "rx_search json_pattern s = Some (i, m)"
  have "spec_bracketed_substring s = Some m'" if "m' = m" for m'
    using json_search_spec[of s] a that by simp
  then have "spec_bracketed_substring s = Some m" by simp
  then show ?thesis
    by (induction s) (auto split: if_splits)
qed

lemma startsWith_append: "startsWith (p @ s) p"
  by (induction p) simp_all

lemma str_includes_append: "str_includes (a @ sub @ b) sub"
proof (induction a)
  case Nil
  show ?case
    by (cases "sub @ b") (use startsWith_append[of sub b] in auto)
next
  case (Cons x a)
  then show ?case by simp
qed

lemma messages_name_context:
  "str_includes (no_json_message context) context"
  "str_includes (parse_failed_message context e) context"
  unfolding no_json_message_def parse_failed_message_def
  by (rule str_includes_append)+

text \<open>
  C8. For every input string, \<open>parseAndHandleJson\<close> extracts the substring from the first
  \<^verbatim>\<open>{\<close> or \<^verbatim>\<open>[\<close> to the last matching \<^verbatim>\<open>}\<close> or \<^verbatim>\<open>]\<close> (the first opening bracket that
  has a closing bracket of its kind after it, through the last such closing bracket,
  whatever comes before and after), gives it to \<^verbatim>\<open>JSON.parse\<close> and returns the result;
  if there is no such substring, or parsing fails, it throws an error whose message
  contains the calling context. In particular, on the input
  \<^verbatim>\<open>"warning: cache miss\n{\"a\":1}\n"\<close> it returns what \<^verbatim>\<open>JSON.parse\<close> makes of
  \<^verbatim>\<open>{"a":1}\<close>, the object \<^verbatim>\<open>{a:1}\<close>.
\<close>

theorem parseAndHandleJson_extracts:
  \<open>parseAndHandleJson JSON_parse s context =
     (case spec_bracketed_substring (trim s) of
        None \<Rightarrow> Inl (no_json_message context)
      | Some m \<Rightarrow>
          (case JSON_parse m of
             Inr parsed \<Rightarrow> Inr parsed
           | Inl e \<Rightarrow> Inl (parse_failed_message context e)))
   \<and> str_includes (no_json_message context) context
   \<and> str_includes (parse_failed_message context e) context
   \<and> (JSON_parse ''{"a":1}'' = Inr v \<longrightarrow>
        parseAndHandleJson JSON_parse cache_miss_example context
          = Inr v)\<close>
proof -
  have eq: "parseAndHandleJson JSON_parse s context =
     (case spec_bracketed_substring (trim s) of
        None \<Rightarrow> Inl (no_json_message context)
      | Some m \<Rightarrow>
          (case JSON_parse m of
             Inr parsed \<Rightarrow> Inr parsed
           | Inl e \<Rightarrow> Inl (parse_failed_message context e)))" for s
  proof (cases "rx_search json_pattern (trim s)")
    case None
    with json_search_spec[of "trim s"] show ?thesis
      by (simp add: parseAndHandleJson_def)
  next
    case (Some im)
    obtain i m where im: "im = (i, m)" by (cases im)
    with Some json_search_nonempty[of "trim s" i m] have "m \<noteq> []" by simp
    moreover have "spec_bracketed_substring (trim s) = Some m"
      using Some im json_search_spec[of "trim s"] by simp
    ultimately show ?thesis
      using Some im by (simp add: parseAndHandleJson_def)
  qed
  have ex: \<open>spec_bracketed_substring (trim cache_miss_example) = Some ''{"a":1}''\<close>
    by (simp add: cache_miss_example_def trim_def isWhiteSpace_def through_last_def)
  show ?thesis
    by (simp add: eq ex messages_name_context)
qed

theorem parseAndHandleJson_extracts_witness:
  \<open>(\<lambda>m. if m = ''{"a":1}'' then Inr (JObj [(''a'', JNum 1)]) else Inl ''Unexpected token'') ''{"a":1}''
     = Inr (JObj [(''a'', JNum 1)])
   \<and> parseAndHandleJson
        (\<lambda>m. if m = ''{"a":1}'' then Inr (JObj [(''a'', JNum 1)]) else Inl ''Unexpected token'')
        cache_miss_example ''kubectl get pods output''
     = Inr (JObj [(''a'', JNum 1)])\<close>
  using parseAndHandleJson_extracts
    [of \<open>\<lambda>m. if m = ''{"a":1}'' then Inr (JObj [(''a'', JNum 1)]) else Inl ''Unexpected token''\<close>
        "[]" "''kubectl get pods output''" "[]" "JObj [(''a'', JNum 1)]"]
  by simp

section \<open>Properties of the retrying executor\<close>

lemma find_upt_bounds: "find P [a..<b] = Some j \<Longrightarrow> a \<le> j \<and> j < b"
  by (auto simp: find_Some_iff)

lemma retry_from_trace:
  "retry_from command retries delay env i =
     (case find (\<lambda>k. \<not> attempt_failed env k) [i..<nat retries] of
        Some j \<Rightarrow>
          (concat (map (\<lambda>k. attempt_trace command env k @ after_failure command retries delay env k) [i..<j])
             @ attempt_trace command env j,
           fst (executeCommand (run (env j))))
      | None \<Rightarrow>
          (concat (map (\<lambda>k. attempt_trace command env k @ after_failure command retries delay env k)
                     [i..<nat retries]),
           Failure (retries_exhausted_message retries command)))"
proof (induction command retries delay env i rule: retry_from.induct)
  case (1 command retries delay env i)
  let ?seg = "\<lambda>k. attempt_trace command env k @ after_failure command retries delay env k"
  show ?case
  proof (cases "int i < retries")
    case False
    then have "[i..<nat retries] = []" by simp
    with False show ?thesis
      by (subst retry_from.simps) simp
  next
    case True
    then have upt: "[i..<nat retries] = i # [Suc i..<nat retries]"
      by (simp add: upt_conv_Cons)
    obtain res frames where ex: "executeCommand (run (env i)) = (res, frames)"
      by (cases "executeCommand (run (env i))")
    show ?thesis
    proof (cases res)
      case (Success out)
      with True ex upt show ?thesis
        by (subst retry_from.simps) (simp add: attempt_failed_def attempt_trace_def)
    next
      case (Failure err)
      have failed: "attempt_failed env i"
        using ex Failure by (simp add: attempt_failed_def)
      have IH: "retry_from command retries delay env (Suc i) =
        (case find (\<lambda>k. \<not> attempt_failed env k) [Suc i..<nat retries] of
          Some j \<Rightarrow> (concat (map ?seg [Suc i..<j]) @ attempt_trace command env j,
                     fst (executeCommand (run (env j))))
        | None \<Rightarrow> (concat (map ?seg [Suc i..<nat retries]),
                    Failure (retries_exhausted_message retries command)))"
        using "1.IH"[OF True ex[symmetric] Failure] by simp
      have seg_i: "?seg i = Spawn command # map Send frames
                  @ (if ready_after (env i) = OPEN
                     then [Send (Log (retry_notice i retries command))] else [])
                  @ [Sleep delay]"
        using ex by (simp add: attempt_trace_def after_failure_def)
      have unfold: "retry_from command retries delay env i =
          (let (rest, result) = retry_from command retries delay env (Suc i) in (?seg i @ rest, result))"
        using True ex Failure
        by (subst retry_from.simps) (simp add: seg_i split: prod.splits)
      show ?thesis
      proof (cases "find (\<lambda>k. \<not> attempt_failed env k) [Suc i..<nat retries]")
        case None
        with failed upt IH unfold show ?thesis by simp
      next
        case (Some j)
        then have "Suc i \<le> j" using find_upt_bounds by blast
        then have "[i..<j] = i # [Suc i..<j]" by (simp add: upt_conv_Cons)
        with Some failed upt IH unfold show ?thesis by simp
      qed
    qed
  qed
qed


lemma spawn_count_append: "spawn_count (a @ b) = spawn_count a + spawn_count b"
  by (simp add: spawn_count_def)

lemma spawn_count_attempt_trace: "spawn_count (attempt_trace command env k) = 1"
  by (simp add: spawn_count_def attempt_trace_def filter_map comp_def)

lemma spawn_count_after_failure: "spawn_count (after_failure command retries delay env k) = 0"
  by (simp add: spawn_count_def after_failure_def)

lemma spawn_count_segments:
  "spawn_count (concat (map (\<lambda>k. attempt_trace command env k @ after_failure command retries delay env k) ks))
     = length ks"
  by (induction ks)
     (simp_all add: spawn_count_append spawn_count_attempt_trace spawn_count_after_failure,
      simp add: spawn_count_def)

lemma upt_split_at: "k < j \<Longrightarrow> [0..<j] = [0..<k] @ k # [Suc k..<j]"
proof -
  assume k: "k < j"
  then have "[0..<j] = [0..<k] @ [k..<j]"
    using upt_add_eq_append[of 0 k "j - k"] by simp
  with k show ?thesis by (simp add: upt_conv_Cons)
qed

lemma segments_split:
  assumes "k < j"
  shows "concat (map seg [0..<j]) = concat (map seg [0..<k]) @ seg k @ concat (map seg [Suc k..<j])"
  by (simp add: upt_split_at[OF assms])


text \<open>
  C3, as stated, fails on a closed socket: with two attempts that both fail, the first
  failed attempt is not the last, and no retry notice is sent after it. The guard
  \<^verbatim>\<open>ws.readyState === 1\<close> skips the notice; only the delay remains.
\<close>

theorem executeCommandWithRetry_closed_socket_counterexample:
  "executeCommandWithRetry ''kubectl get nodes'' 2 15000 env_fail_closed =
     ([Spawn ''kubectl get nodes'', Sleep 15000, Spawn ''kubectl get nodes'', Sleep 15000],
      Failure ''Command failed after 2 attempts: kubectl get nodes'')"
  by (simp add: executeCommandWithRetry_def retry_from.simps executeCommand_def env_fail_closed_def
      failing_run_def str_or_def retries_exhausted_message_def number_toString_def digits_of.simps
      digit_char_def)

text \<open>
  C3, amended. For every invocation of \<open>executeCommandWithRetry\<close> with \<open>retries\<close> attempts:
  \<open>executeCommand\<close> is invoked at most \<open>retries\<close> times; every attempt that is followed by
  another one has failed, and between the two the executor sends the retry-notice log
  frame exactly when the socket is open at that moment (nothing when it is not) and then
  sleeps \<open>delay\<close> before the next attempt; and it returns failure only after all \<open>retries\<close>
  attempts have been made and have failed.
\<close>

theorem executeCommandWithRetry_attempts:
  assumes run: "executeCommandWithRetry command retries delay env = (eff, res)"
  shows "spawn_count eff \<le> nat retries
    \<and> (\<forall>k. Suc k < spawn_count eff \<longrightarrow>
          attempt_failed env k
          \<and> (\<exists>pre post.
                eff = pre @ attempt_trace command env k
                          @ after_failure command retries delay env k
                          @ attempt_trace command env (Suc k) @ post
                \<and> spawn_count pre = k))
    \<and> (\<forall>msg. res = Failure msg \<longrightarrow>
          spawn_count eff = nat retries \<and> (\<forall>k < nat retries. attempt_failed env k))"
proof -
  let ?seg = "\<lambda>k. attempt_trace command env k @ after_failure command retries delay env k"
  let ?n = "nat retries"
  note tr = retry_from_trace[of command retries delay env 0]
  show ?thesis
  proof (cases "find (\<lambda>k. \<not> attempt_failed env k) [0..<?n]")
    case None
    then have allfail: "\<forall>k < ?n. attempt_failed env k"
      by (auto simp: find_None_iff)
    from None tr run have eff: "eff = concat (map ?seg [0..<?n])"
      and res: "res = Failure (retries_exhausted_message retries command)"
      by (simp_all add: executeCommandWithRetry_def)
    have cnt: "spawn_count eff = ?n"
      by (simp add: eff spawn_count_segments)
    have mid: "attempt_failed env k \<and> (\<exists>pre post.
                eff = pre @ attempt_trace command env k
                          @ after_failure command retries delay env k
                          @ attempt_trace command env (Suc k) @ post
                \<and> spawn_count pre = k)" if k: "Suc k < ?n" for k
    proof -
      from k have k': "k < ?n" by simp
      have s1: "eff = concat (map ?seg [0..<k]) @ ?seg k @ concat (map ?seg [Suc k..<?n])"
        unfolding eff by (rule segments_split[OF k'])
      from k have "[Suc k..<?n] = Suc k # [Suc (Suc k)..<?n]"
        by (simp add: upt_conv_Cons)
      then have s2: "concat (map ?seg [Suc k..<?n]) =
          attempt_trace command env (Suc k)
          @ (after_failure command retries delay env (Suc k) @ concat (map ?seg [Suc (Suc k)..<?n]))"
        by simp
      have "eff = concat (map ?seg [0..<k]) @ attempt_trace command env k
                @ after_failure command retries delay env k
                @ attempt_trace command env (Suc k)
                @ (after_failure command retries delay env (Suc k) @ concat (map ?seg [Suc (Suc k)..<?n]))"
        unfolding s1 s2 by simp
      moreover have "spawn_count (concat (map ?seg [0..<k])) = k"
        by (simp add: spawn_count_segments)
      ultimately show ?thesis using allfail k' by blast
    qed
    from cnt mid allfail show ?thesis by simp
  next
    case (Some j)
    then have j: "j < ?n" and ok: "\<not> attempt_failed env j"
      and before: "\<forall>k < j. attempt_failed env k"
      by (auto simp: find_Some_iff)
    from Some tr run have eff: "eff = concat (map ?seg [0..<j]) @ attempt_trace command env j"
      and res: "res = fst (executeCommand (run (env j)))"
      by (simp_all add: executeCommandWithRetry_def)
    have cnt: "spawn_count eff = Suc j"
      by (simp add: eff spawn_count_append spawn_count_segments spawn_count_attempt_trace)
    from ok res have nofail: "res \<noteq> Failure msg" for msg
      by (auto simp: attempt_failed_def split: cmd_result.splits)
    have mid: "attempt_failed env k \<and> (\<exists>pre post.
                eff = pre @ attempt_trace command env k
                          @ after_failure command retries delay env k
                          @ attempt_trace command env (Suc k) @ post
                \<and> spawn_count pre = k)" if k: "k < j" for k
    proof -
      have s1: "eff = concat (map ?seg [0..<k]) @ ?seg k @ concat (map ?seg [Suc k..<j])
                  @ attempt_trace command env j"
        unfolding eff by (simp add: segments_split[OF k])
      have s2: "\<exists>post. concat (map ?seg [Suc k..<j]) @ attempt_trace command env j
                  = attempt_trace command env (Suc k) @ post"
      proof (cases "Suc k = j")
        case True
        then show ?thesis by simp
      next
        case False
        with k have "[Suc k..<j] = Suc k # [Suc (Suc k)..<j]"
          by (simp add: upt_conv_Cons)
        then show ?thesis by simp
      qed
      then obtain post where post: "concat (map ?seg [Suc k..<j]) @ attempt_trace command env j
                  = attempt_trace command env (Suc k) @ post" by blast
      have "eff = concat (map ?seg [0..<k]) @ attempt_trace command env k
                @ after_failure command retries delay env k
                @ attempt_trace command env (Suc k) @ post"
        unfolding s1 using post by simp
      moreover have "spawn_count (concat (map ?seg [0..<k])) = k"
        by (simp add: spawn_count_segments)
      ultimately show ?thesis using before k by blast
    qed
    from cnt mid j nofail show ?thesis by simp
  qed
qed

theorem executeCommandWithRetry_attempts_witness:
  "executeCommandWithRetry ''kubectl get nodes'' 2 15000 env_fail_open
     = (fst (executeCommandWithRetry ''kubectl get nodes'' 2 15000 env_fail_open),
        snd (executeCommandWithRetry ''kubectl get nodes'' 2 15000 env_fail_open))
   \<and> Suc 0 < spawn_count (fst (executeCommandWithRetry ''kubectl get nodes'' 2 15000 env_fail_open))
   \<and> snd (executeCommandWithRetry ''kubectl get nodes'' 2 15000 env_fail_open)
       = Failure ''Command failed after 2 attempts: kubectl get nodes''
   \<and> spawn_count (fst (executeCommandWithRetry ''kubectl get nodes'' 2 15000 env_fail_open)) = 2
   \<and> attempt_failed env_fail_open 0 \<and> attempt_failed env_fail_open 1"
proof -
  let ?r = "executeCommandWithRetry ''kubectl get nodes'' 2 15000 env_fail_open"
  have run: "?r = (fst ?r, snd ?r)" by simp
  have res: "snd ?r = Failure ''Command failed after 2 attempts: kubectl get nodes''"
    by (simp add: executeCommandWithRetry_def retry_from.simps executeCommand_def env_fail_open_def
        failing_run_def str_or_def retries_exhausted_message_def number_toString_def
        digits_of.simps digit_char_def)
  from executeCommandWithRetry_attempts [OF run] res
  have cnt: "spawn_count (fst ?r) = nat 2"
    and all: "\<forall>k < nat 2. attempt_failed env_fail_open k"
    by blast+
  from all have "attempt_failed env_fail_open 0" "attempt_failed env_fail_open 1"
    by simp_all
  with run res cnt show ?thesis by simp
qed
section \<open>Properties of the port-forward singleton\<close>

lemma pf_run_Nil: "pf_run s [] = s"
  by (simp add: pf_run_def)

lemma pf_run_Cons: "pf_run s (e # evs) = pf_run (pf_step s e) evs"
  by (simp add: pf_run_def)

lemma pf_run_snoc: "pf_run s (evs @ [e]) = pf_step (pf_run s evs) e"
  by (simp add: pf_run_def)

lemma pf_run_append: "pf_run s (evs @ evs') = pf_run (pf_run s evs) evs'"
  by (simp add: pf_run_def)

lemma pf_inv_run:
  assumes "P s" and "\<And>s e. P s \<Longrightarrow> P (pf_step s e)"
  shows "P (pf_run s evs)"
  using assms(1)
proof (induction evs arbitrary: s)
  case Nil
  then show ?case by (simp add: pf_run_Nil)
next
  case (Cons e evs)
  then show ?case by (simp add: pf_run_Cons assms(2))
qed

lemma owner_update:
  "owner (ps[i := (ps ! i)\<lparr>terminated := b\<rparr>] ! p) = owner (ps ! p)"
  "owner (ps[i := (ps ! i)\<lparr>closed := b\<rparr>] ! p) = owner (ps ! p)"
proof -
  have "owner (ps[i := q] ! p) = owner (ps ! p)" if "owner q = owner (ps ! i)" for q
  proof (cases "i < length ps")
    case True
    with that show ?thesis by (cases "i = p") simp_all
  next
    case False
    then have "ps[i := q] = ps" by (intro list_update_beyond) simp
    then show ?thesis by simp
  qed
  then show "owner (ps[i := (ps ! i)\<lparr>terminated := b\<rparr>] ! p) = owner (ps ! p)"
    and "owner (ps[i := (ps ! i)\<lparr>closed := b\<rparr>] ! p) = owner (ps ! p)"
    by simp_all
qed

lemma pf_wf_step: "pf_wf s \<Longrightarrow> pf_wf (pf_step s e)"
proof (cases e)
  case PfStart
  then show "pf_wf s \<Longrightarrow> ?thesis"
    by (auto simp: pf_wf_def start_port_forward_def respond_def Let_def nth_append less_Suc_eq)
next
  case PfStop
  then show "pf_wf s \<Longrightarrow> ?thesis"
    by (auto simp: pf_wf_def stop_port_forward_def respond_def Let_def owner_update less_Suc_eq
        split: option.splits)
next
  case (PfStdout p d)
  then show "pf_wf s \<Longrightarrow> ?thesis"
    by (auto simp: pf_wf_def on_pf_stdout_def pf_live_def respond_def Let_def)
next
  case (PfStderr p d)
  then show "pf_wf s \<Longrightarrow> ?thesis"
    by (auto simp: pf_wf_def on_pf_stderr_def pf_live_def respond_def Let_def)
next
  case (PfClose p code)
  then show "pf_wf s \<Longrightarrow> ?thesis"
    by (auto simp: pf_wf_def on_pf_close_def pf_live_def owner_update)
next
  case (PfError p msg)
  then show "pf_wf s \<Longrightarrow> ?thesis"
    by (auto simp: pf_wf_def on_pf_error_def pf_live_def respond_def Let_def)
qed

lemma pf_wf_reach: "pf_wf (pf_run pf_init evs)"
  by (rule pf_inv_run) (simp_all add: pf_wf_def pf_init_def pf_wf_step[unfolded pf_wf_def])

lemma ports_ok_step: "ports_ok s \<Longrightarrow> ports_ok (pf_step s e)"
  by (cases e)
     (auto simp: ports_ok_def start_port_forward_def stop_port_forward_def on_pf_stdout_def
       on_pf_stderr_def on_pf_close_def on_pf_error_def respond_def Let_def localPort_def
       split: option.splits)

lemma ports_ok_run: "ports_ok s \<Longrightarrow> ports_ok (pf_run s evs)"
  by (rule pf_inv_run) (simp_all add: ports_ok_step)

text \<open>Output on stdout changes nothing but the responses, and adds only the success response.\<close>

lemma stdout_step:
  assumes "is_pf_stdout e"
  shows "pf_procs (pf_step s e) = pf_procs s"
    and "portForwardProcess (pf_step s e) = portForwardProcess s"
    and "requests (pf_step s e) = requests s"
    and "x \<in> set (responses (pf_step s e)) \<Longrightarrow> x \<in> set (responses s) \<or> snd x = started_ok"
  using assms
  by (cases e; auto simp: on_pf_stdout_def respond_def Let_def localPort_def started_ok_def
      split: if_splits)+

lemma stdout_run:
  assumes "\<forall>e \<in> set mid. is_pf_stdout e"
  shows "pf_procs (pf_run s mid) = pf_procs s
       \<and> portForwardProcess (pf_run s mid) = portForwardProcess s
       \<and> requests (pf_run s mid) = requests s
       \<and> (\<forall>x \<in> set (responses (pf_run s mid)). x \<in> set (responses s) \<or> snd x = started_ok)"
  using assms
proof (induction mid rule: rev_induct)
  case Nil
  then show ?case by (simp add: pf_run_Nil)
next
  case (snoc e mid)
  then have e: "is_pf_stdout e" and IH: "pf_procs (pf_run s mid) = pf_procs s
       \<and> portForwardProcess (pf_run s mid) = portForwardProcess s
       \<and> requests (pf_run s mid) = requests s
       \<and> (\<forall>x \<in> set (responses (pf_run s mid)). x \<in> set (responses s) \<or> snd x = started_ok)"
    by simp_all
  show ?case
    unfolding pf_run_snoc
    using stdout_step[OF e, where s = "pf_run s mid"] IH by auto
qed

text \<open>
  C9, as stated, fails when the subprocess of the first start ends before the second
  start: its \<^verbatim>\<open>stderr\<close> and \<^verbatim>\<open>close\<close> listeners clear the handle, so the second start,
  with no stop in between, spawns a second subprocess, and the first response is an
  error without a port.
\<close>

theorem port_forward_start_twice_counterexample:
  "pf_run pf_init
     [PfStart, PfStderr 0 ''error: service not found'', PfClose 0 (Some 1), PfStart]
   = \<lparr>portForwardProcess = Some 1,
      pf_procs = [\<lparr>owner = 0, terminated = False, closed = True\<rparr>,
                  \<lparr>owner = 1, terminated = False, closed = False\<rparr>],
      responses = [(0, \<lparr>status = 500,
                          body = ''Failed to start port-forwarding: error: service not found'',
                          port = None\<rparr>)],
      requests = 2\<rparr>"
  by (simp add: pf_run_def pf_init_def start_port_forward_def on_pf_stderr_def on_pf_close_def
      pf_live_def headersSent_def respond_def Let_def)

text \<open>
  C9, amended. When start is called with no forwarding subprocess registered, and called
  again while the handle it stored is still in place (no stop, and no stderr output, exit
  or spawn error of the subprocess in between, only output on stdout), then the two calls
  spawn exactly one subprocess; the second call spawns nothing and is answered at once
  with status 200 and port 8080; a response to the first call sent by then is the success
  response with the same port 8080; and whatever happens later, every response that names
  a port names 8080.
\<close>

theorem port_forward_start_twice:
  assumes idle: "portForwardProcess (pf_run pf_init pre) = None"
    and mid: "\<forall>e \<in> set mid. is_pf_stdout e"
  shows "let s = pf_run pf_init pre;
             s1 = pf_step s PfStart;
             s2 = pf_run s1 mid;
             s3 = pf_step s2 PfStart
         in pf_procs s3 = pf_procs s @ [\<lparr>owner = requests s, terminated = False, closed = False\<rparr>]
          \<and> portForwardProcess s3 = Some (length (pf_procs s))
          \<and> responses s3 = responses s2
               @ [(Suc (requests s),
                   \<lparr>status = 200, body = ''Port-forwarding already active.'', port = Some 8080\<rparr>)]
          \<and> (\<forall>resp. (requests s, resp) \<in> set (responses s3) \<longrightarrow>
                 status resp = 200 \<and> port resp = Some 8080)
          \<and> (\<forall>later x. x \<in> set (responses (pf_run s3 later)) \<longrightarrow>
                 port (snd x) = None \<or> port (snd x) = Some 8080)"
proof -
  define s where "s = pf_run pf_init pre"
  define s1 where "s1 = pf_step s PfStart"
  define s2 where "s2 = pf_run s1 mid"
  define s3 where "s3 = pf_step s2 PfStart"
  have wf: "pf_wf s" unfolding s_def by (rule pf_wf_reach)
  have idle': "portForwardProcess s = None" using idle by (simp add: s_def)
  have s1: "pf_procs s1 = pf_procs s @ [\<lparr>owner = requests s, terminated = False, closed = False\<rparr>]"
    "portForwardProcess s1 = Some (length (pf_procs s))"
    "requests s1 = Suc (requests s)" "responses s1 = responses s"
    using idle' by (simp_all add: s1_def start_port_forward_def Let_def)
  from stdout_run[OF mid, of s1] have s2: "pf_procs s2 = pf_procs s1"
    "portForwardProcess s2 = portForwardProcess s1" "requests s2 = requests s1"
    "\<forall>x \<in> set (responses s2). x \<in> set (responses s1) \<or> snd x = started_ok"
    by (simp_all add: s2_def)
  have s3: "pf_procs s3 = pf_procs s2" "portForwardProcess s3 = portForwardProcess s2"
    "responses s3 = responses s2
       @ [(requests s2, \<lparr>status = 200, body = ''Port-forwarding already active.'', port = Some 8080\<rparr>)]"
    using s2(2) s1(2) by (simp_all add: s3_def start_port_forward_def Let_def respond_def)
  have first: "status resp = 200 \<and> port resp = Some 8080"
    if "(requests s, resp) \<in> set (responses s3)" for resp
  proof -
    from that s3(3) s2(3) s1(3) have "(requests s, resp) \<in> set (responses s2)" by auto
    with s2(4) have "(requests s, resp) \<in> set (responses s1) \<or> resp = started_ok" by auto
    moreover have "(requests s, resp) \<notin> set (responses s)"
      using wf by (auto simp: pf_wf_def)
    ultimately show ?thesis using s1(4) by (auto simp: started_ok_def)
  qed
  have "ports_ok (pf_run pf_init (pre @ [PfStart] @ mid @ [PfStart] @ later))" for later
    by (rule ports_ok_run) (simp add: ports_ok_def pf_init_def)
  then have ports: "ports_ok (pf_run s3 later)" for later
    by (simp add: pf_run_append s3_def s2_def s1_def s_def pf_run_Cons pf_run_Nil)
  show ?thesis
    unfolding Let_def s_def[symmetric] s1_def[symmetric] s2_def[symmetric] s3_def[symmetric]
    using s1 s2 s3 first ports by (auto simp: ports_ok_def)
qed

theorem port_forward_start_twice_witness:
  "portForwardProcess (pf_run pf_init []) = None
   \<and> is_pf_stdout (PfStdout 0 ''Forwarding from 127.0.0.1:8080 -> 3000'')
   \<and> pf_procs (pf_run pf_init
         [PfStart, PfStdout 0 ''Forwarding from 127.0.0.1:8080 -> 3000'', PfStart])
       = [\<lparr>owner = 0, terminated = False, closed = False\<rparr>]
   \<and> responses (pf_run pf_init
         [PfStart, PfStdout 0 ''Forwarding from 127.0.0.1:8080 -> 3000'', PfStart])
       = [(0, \<lparr>status = 200, body = ''Port-forwarding started successfully.'', port = Some 8080\<rparr>),
          (1, \<lparr>status = 200, body = ''Port-forwarding already active.'', port = Some 8080\<rparr>)]"
proof -
  have idle: "portForwardProcess (pf_run pf_init []) = None"
    by (simp add: pf_run_def pf_init_def)
  have mid: "\<forall>e \<in> set [PfStdout 0 ''Forwarding from 127.0.0.1:8080 -> 3000'']. is_pf_stdout e"
    by simp
  have resp: "responses (pf_run (pf_step (pf_run pf_init []) PfStart)
                 [PfStdout 0 ''Forwarding from 127.0.0.1:8080 -> 3000''])
       = [(0, \<lparr>status = 200, body = ''Port-forwarding started successfully.'', port = Some 8080\<rparr>)]"
    by (simp add: pf_run_def pf_init_def start_port_forward_def on_pf_stdout_def pf_live_def
        headersSent_def respond_def Let_def localPort_def)
  from port_forward_start_twice [OF idle mid] resp idle mid show ?thesis
    by (simp add: Let_def pf_run_def pf_init_def)
qed
section \<open>Properties of the EKS CLI stream\<close>

subsection \<open>The structure of a session with one command\<close>

lemma structural_cong:
  "flows s' = flows s \<Longrightarrow> procs s' = procs s \<Longrightarrow> eksProcess s' = eksProcess s
   \<Longrightarrow> eksProcessExited s' = eksProcessExited s \<Longrightarrow> structural s' = structural s"
  by (simp add: structural_def proc_ok_def split: list.splits)

lemma structural_ws_send [simp]: "structural (ws_send f s) = structural s"
  by (rule structural_cong) (simp_all add: ws_send_def)

lemma structural_ws_send_if_open [simp]: "structural (ws_send_if_open f s) = structural s"
  by (simp add: ws_send_if_open_def)

lemma structural_ws_close [simp]: "structural (ws_close s) = structural s"
  by (rule structural_cong) (simp_all add: ws_close_def)

lemma structural_run_command [simp]: "structural (run_command c s) = structural s"
  by (rule structural_cong) (simp_all add: run_command_def)

lemma structural_timers [simp]: "structural (s\<lparr>timers := n\<rparr>) = structural s"
  by (rule structural_cong) simp_all

lemma structural_readyState [simp]: "structural (s\<lparr>readyState := r\<rparr>) = structural s"
  by (rule structural_cong) simp_all

lemma structural_cleanup [simp]:
  "structural s \<Longrightarrow> structural (cleanupEksProcessResources s)"
  by (auto simp: structural_def proc_ok_def cleanupEksProcessResources_def
      split: list.splits option.splits if_splits)

lemma structural_set_stage:
  "structural s \<Longrightarrow> \<not> prespawn st \<or> procs s = [] \<Longrightarrow> structural (set_stage i st s)"
  by (cases i) (auto simp: structural_def proc_ok_def set_stage_def split: list.splits)

lemma stage_of_prespawn:
  "structural s \<Longrightarrow> stage_of s i = Some st \<Longrightarrow> prespawn st \<Longrightarrow> procs s = []"
  by (cases i) (auto simp: stage_of_def structural_def split: if_splits list.splits)

lemma stage_of_index:
  "structural s \<Longrightarrow> stage_of s i = Some st \<Longrightarrow> i = 0 \<and> (\<exists>f. flows s = [f] \<and> stage f = st)"
  by (cases i) (auto simp: stage_of_def structural_def split: if_splits list.splits)

lemma structural_abort [simp]: "structural s \<Longrightarrow> structural (abort i msg s)"
  by (simp add: abort_def structural_set_stage prespawn_def)

lemma structural_finish_with [simp]: "structural s \<Longrightarrow> structural (finish_with i f s)"
  by (simp add: finish_with_def structural_set_stage prespawn_def)

lemma structural_to_delay [simp]: "structural s \<Longrightarrow> structural (to_delay i s)"
  by (simp add: to_delay_def structural_set_stage prespawn_def)

lemma structural_spawn:
  "structural s \<Longrightarrow> procs s = [] \<Longrightarrow> flows s = [f] \<Longrightarrow> \<not> prespawn st \<Longrightarrow>
   structural (set_stage 0 st
           (s\<lparr>procs := procs s @ [\<lparr>args = a, stdin = inp, attached = True, exited = False,
                                    failed = False, killed = False, flow_of = 0\<rparr>],
              eksProcess := Some (length (procs s))\<rparr>))"
  by (auto simp: structural_def proc_ok_def set_stage_def)

lemma proc_index:
  "structural s \<Longrightarrow> p < length (procs s) \<Longrightarrow> p = 0 \<and> (\<exists>q f. procs s = [q] \<and> flows s = [f])"
  by (cases p) (auto simp: structural_def split: list.splits)

lemma structural_mark_exited:
  "structural s \<Longrightarrow> structural (mark_proc p (\<lambda>q. q\<lparr>exited := True\<rparr>) s)"
  "structural s \<Longrightarrow> p < length (procs s) \<Longrightarrow>
     structural ((mark_proc p (\<lambda>q. q\<lparr>exited := True\<rparr>) s)\<lparr>eksProcessExited := True\<rparr>)"
  by (cases p; auto simp: structural_def proc_ok_def mark_proc_def split: list.splits)+

lemma structural_mark_failed:
  "structural s \<Longrightarrow> structural (mark_proc p (\<lambda>q. q\<lparr>failed := True\<rparr>) s)"
  "structural s \<Longrightarrow> p < length (procs s) \<Longrightarrow>
     structural ((mark_proc p (\<lambda>q. q\<lparr>failed := True\<rparr>) s)\<lparr>eksProcessExited := True\<rparr>)"
  by (cases p; auto simp: structural_def proc_ok_def mark_proc_def split: list.splits)+


lemma prim_procs [simp]:
  "procs (ws_send f s) = procs s" "procs (ws_send_if_open f s) = procs s"
  "procs (ws_close s) = procs s" "procs (run_command c s) = procs s"
  "procs (set_stage i st s) = procs s"
  by (simp_all add: ws_send_def ws_send_if_open_def ws_close_def run_command_def set_stage_def)

lemma prim_flows [simp]:
  "flows (ws_send f s) = flows s" "flows (ws_send_if_open f s) = flows s"
  "flows (ws_close s) = flows s" "flows (run_command c s) = flows s"
  "flows (cleanupEksProcessResources s) = flows s"
  by (simp_all add: ws_send_def ws_send_if_open_def ws_close_def run_command_def
      cleanupEksProcessResources_def split: option.splits)

lemma structural_set_stage_pre:
  "structural s \<Longrightarrow> stage_of s i = Some st \<Longrightarrow> prespawn st \<Longrightarrow> procs s' = procs s
   \<Longrightarrow> structural s' \<Longrightarrow> structural (set_stage i st' s')"
  using stage_of_prespawn structural_set_stage by metis

lemma structural_init: "structural init"
  by (simp add: structural_def init_def)

lemma structural_message:
  "structural s \<Longrightarrow> flows s = [] \<Longrightarrow> structural (step s (Message m))"
  by (cases m)
     (auto simp: structural_def proc_ok_def prespawn_def run_command_def ws_send_def ws_close_def)

lemma structural_sts: "structural s \<Longrightarrow> structural (step s (StsDone i r))"
  by (auto simp: on_sts_def prespawn_def split: sum.splits
      intro!: structural_set_stage_pre[where s = s and st = AwaitSts])

lemma structural_iam: "structural s \<Longrightarrow> structural (step s (IamDone i r))"
  by (auto simp: on_iam_def Let_def prespawn_def split: iam_outcome.splits
      intro!: structural_set_stage_pre[where s = s and st = AwaitIam])

lemma structural_check_data: "structural s \<Longrightarrow> structural (step s (CheckData i c))"
  by (auto simp: on_check_data_def prespawn_def split: option.splits stage.splits chunk.splits
      intro!: structural_set_stage_pre[where s = s and i = i])

lemma structural_spawn_create:
  assumes "structural s" "stage_of s i = Some (AwaitCheck seen)"
  shows "structural (spawn_create i payload (ws_send f s))"
proof -
  from stage_of_index[OF assms] obtain fl where i: "i = 0" and fl: "flows s = [fl]" by blast
  from stage_of_prespawn[OF assms] have pr: "procs s = []" by (simp add: prespawn_def)
  have "structural (ws_send (Log t) (ws_send f s))" for t
    using assms(1) by simp
  then show ?thesis
    unfolding spawn_create_def Let_def i
    using structural_spawn[of "ws_send (Log t) (ws_send f s)" fl "Running 0" for t] fl pr
    by (simp add: ws_send_def prespawn_def)
qed

lemma structural_check: "structural s \<Longrightarrow> structural (step s (CheckDone i ex))"
  by (auto simp: on_check_def Let_def structural_spawn_create
      split: option.splits stage.splits cmd_result.splits request.splits)

lemma structural_proc_data: "structural s \<Longrightarrow> structural (step s (ProcData p c))"
  by (auto simp: on_proc_data_def split: chunk.splits)

lemma structural_proc_close: "structural s \<Longrightarrow> structural (step s (ProcClose p code))"
  by (auto simp: on_proc_close_def Let_def proc_alive_def structural_mark_exited
      structural_set_stage prespawn_def split: request.splits)

lemma structural_proc_error: "structural s \<Longrightarrow> structural (step s (ProcError p e))"
  by (auto simp: on_proc_error_def Let_def proc_alive_def structural_mark_failed
      structural_set_stage prespawn_def split: request.splits)

lemma structural_helper_log: "structural s \<Longrightarrow> structural (step s (HelperLog i t))"
  by (auto split: option.splits)

lemma structural_helper: "structural s \<Longrightarrow> structural (step s (HelperDone i r))"
  by (auto simp: on_helper_def Let_def structural_set_stage prespawn_def
      split: option.splits helper_result.splits request.splits)

lemma structural_delay: "structural s \<Longrightarrow> structural (step s (DelayDone i))"
  by (auto simp: on_delay_def)

lemma structural_timer: "structural s \<Longrightarrow> structural (step s TimerFired)"
  by (auto simp: on_timer_def)

lemma structural_wsclose: "structural s \<Longrightarrow> structural (step s WsClose)"
  by (auto simp: on_ws_close_def)

lemma structural_wserror: "structural s \<Longrightarrow> structural (step s (WsError e))"
  by (auto simp: on_ws_error_def Let_def)

lemma structural_step:
  "structural s \<Longrightarrow> \<not> is_message e \<Longrightarrow> structural (step s e)"
  by (cases e)
     (simp_all only: is_message.simps structural_sts structural_iam structural_check_data
       structural_check structural_proc_data structural_proc_close structural_proc_error
       structural_helper_log structural_helper structural_delay structural_timer
       structural_wsclose structural_wserror simp_thms)

lemma run_events_Nil [simp]: "run_events s [] = s"
  by (simp add: run_events_def)

lemma run_events_Cons: "run_events s (e # evs) = run_events (step s e) evs"
  by (simp add: run_events_def)

lemma run_events_snoc: "run_events s (evs @ [e]) = step (run_events s evs) e"
  by (simp add: run_events_def)

lemma run_events_append: "run_events s (evs @ evs') = run_events (run_events s evs) evs'"
  by (simp add: run_events_def)

lemma length_flows_set_stage [simp]: "length (flows (set_stage i st s)) = length (flows s)"
  by (simp add: set_stage_def)

lemma length_flows_prims [simp]:
  "length (flows (abort i msg s)) = length (flows s)"
  "length (flows (finish_with i f s)) = length (flows s)"
  "length (flows (to_delay i s)) = length (flows s)"
  "length (flows (spawn_create i payload s)) = length (flows s)"
  "flows (mark_proc p g s) = flows s"
  by (simp_all add: abort_def finish_with_def to_delay_def spawn_create_def Let_def mark_proc_def)

lemma length_flows_step:
  "\<not> is_message e \<Longrightarrow> length (flows (step s e)) = length (flows s)"
  by (cases e)
     (auto simp: on_sts_def on_iam_def on_check_data_def on_check_def on_proc_data_def
       on_proc_close_def on_proc_error_def on_helper_def on_delay_def on_timer_def
       on_ws_close_def on_ws_error_def Let_def
       split: sum.splits iam_outcome.splits option.splits stage.splits chunk.splits
         cmd_result.splits request.splits helper_result.splits)

lemma single_command_snoc:
  "single_command (evs @ [e]) \<Longrightarrow>
     single_command evs \<and> (is_message e \<longrightarrow> (\<forall>x \<in> set evs. \<not> is_message x))"
  by (auto simp: single_command_def filter_empty_conv split: if_splits)

lemma structural_run_aux:
  "single_command evs \<Longrightarrow>
     structural (run_events init evs)
     \<and> ((\<forall>x \<in> set evs. \<not> is_message x) \<longrightarrow> flows (run_events init evs) = [])"
proof (induction evs rule: rev_induct)
  case Nil
  then show ?case by (simp add: structural_init) (simp add: init_def)
next
  case (snoc e evs)
  from single_command_snoc[OF snoc.prems]
  have sc: "single_command evs" and m: "is_message e \<longrightarrow> (\<forall>x \<in> set evs. \<not> is_message x)"
    by simp_all
  from snoc.IH[OF sc] have st: "structural (run_events init evs)"
    and fl: "(\<forall>x \<in> set evs. \<not> is_message x) \<longrightarrow> flows (run_events init evs) = []"
    by simp_all
  show ?case
  proof (cases "is_message e")
    case True
    then obtain msg where e: "e = Message msg" by (cases e) auto
    from True m fl have "flows (run_events init evs) = []" by simp
    with st have "structural (step (run_events init evs) (Message msg))"
      by (rule structural_message)
    with True e show ?thesis
      by (simp only: run_events_snoc) simp
  next
    case False
    have "flows (run_events init (evs @ [e])) = []" if "\<forall>x \<in> set evs. \<not> is_message x"
      using length_flows_step[OF False, of "run_events init evs"] fl that
      by (simp add: run_events_snoc)
    with False st show ?thesis
      by (simp add: run_events_snoc structural_step)
  qed
qed

lemma structural_run: "single_command evs \<Longrightarrow> structural (run_events init evs)"
  by (simp add: structural_run_aux)

lemma running_shape:
  assumes "structural s"
    and "p < length (procs s)" "\<not> exited (procs s ! p)" "\<not> failed (procs s ! p)"
        "\<not> killed (procs s ! p)"
  shows "p = 0 \<and> (\<exists>q. procs s = [q] \<and> attached q) \<and> eksProcess s = Some 0 \<and> \<not> eksProcessExited s"
proof -
  from proc_index[OF assms(1,2)] obtain q f where p: "p = 0" and q: "procs s = [q]" and f: "flows s = [f]"
    by blast
  from assms(1) q f have ok: "proc_ok s q" by (simp add: structural_def)
  from assms(3-5) p q have "\<not> exited q" "\<not> failed q" "\<not> killed q" by simp_all
  with ok have "attached q" "eksProcess s = Some 0" "\<not> eksProcessExited s"
    by (auto simp: proc_ok_def)
  with p q show ?thesis by simp
qed


subsection \<open>Closing the socket\<close>

text \<open>
  C1, as stated, fails: in the session of a create request that has passed its checks,
  \<^verbatim>\<open>eksctl create cluster\<close> is running (spawned, not closed, not killed), and the \<^verbatim>\<open>close\<close>
  event of the socket kills it; the listener of that event calls
  \<^verbatim>\<open>cleanupEksProcessResources\<close>, which sends SIGKILL to a subprocess that has not exited.
\<close>

theorem close_kills_counterexample:
  "args (procs (run_events init creation_started) ! 0) = [''create'', ''cluster'', ''-f'', ''-'']
   \<and> \<not> exited (procs (run_events init creation_started) ! 0)
   \<and> \<not> killed (procs (run_events init creation_started) ! 0)
   \<and> killed (procs (run_events init (creation_started @ [WsClose])) ! 0)"
  by code_simp

text \<open>
  C1, amended. For every session with one command in which the create or delete
  subprocess is running (spawned, not closed, not failed to spawn, not killed) while the
  socket has not yet closed: the subprocess still has the session's listeners attached, and
  the \<^verbatim>\<open>close\<close> event of the client WebSocket kills it with SIGKILL, removes its listeners
  and clears the handle. The subprocess does not run to completion server-side.
\<close>

theorem close_kills_running_subprocess:
  assumes "single_command evs"
    and "p < length (procs (run_events init evs))"
    and "\<not> exited (procs (run_events init evs) ! p)"
    and "\<not> failed (procs (run_events init evs) ! p)"
    and "\<not> killed (procs (run_events init evs) ! p)"
    and "readyState (run_events init evs) \<noteq> CLOSED"
  shows "killed (procs (run_events init (evs @ [WsClose])) ! p)
       \<and> \<not> attached (procs (run_events init (evs @ [WsClose])) ! p)
       \<and> eksProcess (run_events init (evs @ [WsClose])) = None
       \<and> attached (procs (run_events init evs) ! p)"
proof -
  let ?s = "run_events init evs"
  have st: "structural ?s" using assms(1) by (rule structural_run)
  from running_shape[OF st assms(2-5)] obtain q where p: "p = 0" and q: "procs ?s = [q]"
    and a: "attached q" and h: "eksProcess ?s = Some 0" and x: "\<not> eksProcessExited ?s"
    by blast
  with assms(6) show ?thesis
    by (simp add: run_events_snoc on_ws_close_def cleanupEksProcessResources_def)
qed

theorem close_kills_running_subprocess_witness:
  "single_command creation_started
   \<and> 0 < length (procs (run_events init creation_started))
   \<and> \<not> exited (procs (run_events init creation_started) ! 0)
   \<and> \<not> failed (procs (run_events init creation_started) ! 0)
   \<and> \<not> killed (procs (run_events init creation_started) ! 0)
   \<and> readyState (run_events init creation_started) \<noteq> CLOSED
   \<and> killed (procs (run_events init (creation_started @ [WsClose])) ! 0)
   \<and> \<not> attached (procs (run_events init (creation_started @ [WsClose])) ! 0)
   \<and> eksProcess (run_events init (creation_started @ [WsClose])) = None"
proof -
  have h1: "single_command creation_started" by code_simp
  have h2: "0 < length (procs (run_events init creation_started))" by code_simp
  have h3: "\<not> exited (procs (run_events init creation_started) ! 0)" by code_simp
  have h4: "\<not> failed (procs (run_events init creation_started) ! 0)" by code_simp
  have h5: "\<not> killed (procs (run_events init creation_started) ! 0)" by code_simp
  have h6: "readyState (run_events init creation_started) \<noteq> CLOSED" by code_simp
  from close_kills_running_subprocess [OF h1 h2 h3 h4 h5 h6] h1 h2 h3 h4 h5 h6
  show ?thesis by blast
qed
subsection \<open>The IAM pre-flight check\<close>

lemma dead_stage: "dead s \<Longrightarrow> stage_of s i = Some st \<Longrightarrow> st = Finished"
  by (auto simp: dead_def stage_of_def list_all_length split: if_splits)

lemma dead_step:
  assumes "dead s" "\<not> is_message e"
  shows "dead (step s e) \<and> sends (step s e) = sends s \<and> commands (step s e) = commands s"
proof -
  have no: "stage_of s i \<noteq> Some AwaitSts" "stage_of s i \<noteq> Some AwaitIam"
    "stage_of s i \<noteq> Some (AwaitCheck seen)" "stage_of s i \<noteq> Some Delay"
    "stage_of s i = Some st \<Longrightarrow> \<not> in_post st" for i seen st
    using dead_stage[OF assms(1)] by (auto simp: in_post_def)
  from assms(1) have d: "readyState s \<noteq> OPEN" "procs s = []"
    "list_all (\<lambda>f. stage f = Finished) (flows s)"
    by (simp_all add: dead_def)
  show ?thesis
  proof (cases e)
    case (Message m)
    with assms(2) show ?thesis by simp
  next
    case (CheckData i c)
    with assms(1) no(3)[of i] show ?thesis
      by (auto split: option.splits stage.splits)
  next
    case (CheckDone i ex)
    with assms(1) no(3)[of i] show ?thesis
      by (auto split: option.splits stage.splits)
  next
    case (HelperLog i t)
    with assms(1) no(5)[of i] show ?thesis
      by (auto split: option.splits)
  next
    case (HelperDone i r)
    with assms(1) no(5)[of i] show ?thesis
      by (auto split: option.splits)
  next
    case TimerFired
    with d show ?thesis
      by (auto simp: dead_def on_timer_def ws_close_def)
  next
    case WsClose
    with d show ?thesis
      by (auto simp: dead_def on_ws_close_def cleanupEksProcessResources_def split: option.splits)
  next
    case (WsError x)
    with d show ?thesis
      by (auto simp: dead_def on_ws_error_def cleanupEksProcessResources_def Let_def
          split: option.splits)
  qed (use assms(1) no d in \<open>auto simp: proc_alive_def\<close>)
qed

lemma dead_run:
  "dead s \<Longrightarrow> \<forall>e \<in> set evs. \<not> is_message e \<Longrightarrow>
     dead (run_events s evs) \<and> sends (run_events s evs) = sends s
     \<and> commands (run_events s evs) = commands s \<and> procs (run_events s evs) = []"
proof (induction evs arbitrary: s)
  case Nil
  then show ?case by (simp add: dead_def)
next
  case (Cons e evs)
  from dead_step[OF Cons.prems(1), of e] Cons.prems(2)
  have d: "dead (step s e)" and s: "sends (step s e) = sends s"
    and c: "commands (step s e) = commands s" by simp_all
  from Cons.IH[OF d] Cons.prems(2) s c show ?case
    by (simp add: run_events_Cons)
qed

lemma dead_abort:
  "structural s \<Longrightarrow> stage_of s i = Some st \<Longrightarrow> prespawn st \<Longrightarrow> dead (abort i msg s)"
proof -
  assume a: "structural s" "stage_of s i = Some st" "prespawn st"
  from stage_of_index[OF a(1,2)] obtain f where i: "i = 0" and f: "flows s = [f]" by blast
  from stage_of_prespawn[OF a] have p: "procs s = []" .
  from a(1) f p have h: "eksProcess s = None" by (simp add: structural_def)
  show ?thesis
    by (simp add: dead_def abort_def set_stage_def cleanupEksProcessResources_def ws_close_def
        ws_send_def i f p h)
qed

lemma prim_commands [simp]:
  "commands (ws_send f s) = commands s" "commands (ws_send_if_open f s) = commands s"
  "commands (ws_close s) = commands s" "commands (set_stage i st s) = commands s"
  "commands (cleanupEksProcessResources s) = commands s"
  "commands (mark_proc p g s) = commands s"
  "commands (run_command c s) = commands s @ [c]"
  by (simp_all add: ws_send_def ws_send_if_open_def ws_close_def run_command_def set_stage_def
      cleanupEksProcessResources_def mark_proc_def split: option.splits)

lemma flows_set_stage_single:
  "flows s = [f] \<Longrightarrow> flows (set_stage 0 st s) = [f\<lparr>stage := st\<rparr>]"
  by (simp add: set_stage_def)

lemma flows_set_stage_gen:
  "structural s \<Longrightarrow> i < length (flows s) \<Longrightarrow> \<exists>f. flows (set_stage i st s) = [f\<lparr>stage := st\<rparr>]"
  by (cases i) (auto simp: set_stage_def structural_def split: list.splits)

lemma pre_ok_later:
  assumes "flows s' = [f']" "stage f' \<noteq> AwaitSts" "stage f' \<noteq> AwaitIam"
  shows "pre_ok s'"
  using assms by (simp add: pre_ok_def)

lemma pre_ok_same:
  assumes "pre_ok s" "flows s' = flows s" "commands s' = commands s"
  shows "pre_ok s'"
  using assms by (simp add: pre_ok_def)

lemma pre_ok_set_stage:
  assumes "structural s" "i < length (flows s)" "st \<noteq> AwaitSts" "st \<noteq> AwaitIam"
    and "flows s1 = flows s" "procs s1 = procs s" "eksProcess s1 = eksProcess s"
        "eksProcessExited s1 = eksProcessExited s"
  shows "pre_ok (set_stage i st s1)"
proof -
  from structural_cong[OF assms(5-8)] assms(1) have "structural s1" by simp
  from flows_set_stage_gen[OF this, of i st] assms(2,5)
  obtain f where "flows (set_stage i st s1) = [f\<lparr>stage := st\<rparr>]" by auto
  then show ?thesis
    using assms(3,4) by (intro pre_ok_later[where f' = "f\<lparr>stage := st\<rparr>"]) simp_all
qed


lemma flows_handlers:
  assumes "flows s = [f]"
  shows "flows (abort 0 msg s) = [f\<lparr>stage := Finished\<rparr>]"
    and "flows (finish_with 0 fr s) = [f\<lparr>stage := Finished\<rparr>]"
    and "flows (to_delay 0 s) = [f\<lparr>stage := Delay\<rparr>]"
    and "flows (spawn_create 0 payload s) = [f\<lparr>stage := Running (length (procs s))\<rparr>]"
  using assms
  by (simp_all add: abort_def finish_with_def to_delay_def spawn_create_def Let_def
      flows_set_stage_single)

lemma commands_handlers [simp]:
  "commands (abort i msg s) = commands s"
  "commands (finish_with i fr s) = commands s"
  "commands (to_delay i s) = commands s"
  "commands (spawn_create i payload s) = commands s"
  by (simp_all add: abort_def finish_with_def to_delay_def spawn_create_def Let_def)

lemma pre_ok_message:
  "pre_ok s \<Longrightarrow> flows s = [] \<Longrightarrow> pre_ok (step s (Message m))"
  by (cases m) (auto simp: pre_ok_def ws_close_def ws_send_def run_command_def)

lemma pre_ok_sts:
  assumes "structural s" "pre_ok s"
  shows "pre_ok (step s (StsDone i r))"
proof (cases "stage_of s i = Some AwaitSts")
  case False
  with assms show ?thesis by simp
next
  case True
  from stage_of_index[OF assms(1) True] obtain f where i: "i = 0" and f: "flows s = [f]"
    and st: "stage f = AwaitSts" by blast
  from assms(2) f st have c: "commands s = [sts_command]" by (simp add: pre_ok_def)
  show ?thesis
  proof (cases r)
    case (Inl e)
    with True i show ?thesis
      by (simp add: on_sts_def pre_ok_def flows_handlers[OF f])
  next
    case (Inr arn)
    with True i c show ?thesis
      by (auto simp: on_sts_def pre_ok_def flows_set_stage_single[of _ f] f)
  qed
qed

lemma pre_ok_iam:
  assumes "structural s" "pre_ok s"
  shows "pre_ok (step s (IamDone i r))"
proof (cases "stage_of s i = Some AwaitIam")
  case False
  with assms show ?thesis by simp
next
  case True
  from stage_of_index[OF assms(1) True] obtain f where i: "i = 0" and f: "flows s = [f]"
    by blast
  with True show ?thesis
    by (cases r)
       (simp_all add: on_iam_def Let_def pre_ok_def flows_handlers[OF f]
         flows_set_stage_single[of _ f])
qed

lemma pre_ok_check_data:
  assumes "structural s" "pre_ok s"
  shows "pre_ok (step s (CheckData i c))"
proof (cases "\<exists>seen. stage_of s i = Some (AwaitCheck seen)")
  case False
  with assms show ?thesis by (auto split: option.splits stage.splits)
next
  case True
  then obtain seen where en: "stage_of s i = Some (AwaitCheck seen)" by blast
  from stage_of_index[OF assms(1) en] obtain f where i: "i = 0" and f: "flows s = [f]"
    by blast
  with en show ?thesis
    by (cases c)
       (simp_all add: on_check_data_def pre_ok_def flows_set_stage_single[of _ f])
qed

lemma pre_ok_check:
  assumes "structural s" "pre_ok s"
  shows "pre_ok (step s (CheckDone i ex))"
proof (cases "\<exists>seen. stage_of s i = Some (AwaitCheck seen)")
  case False
  with assms show ?thesis by (auto split: option.splits stage.splits)
next
  case True
  then obtain seen where en: "stage_of s i = Some (AwaitCheck seen)" by blast
  from stage_of_index[OF assms(1) en] obtain f where i: "i = 0" and f: "flows s = [f]"
    and st: "stage f = AwaitCheck seen" by blast
  have same: "pre_ok s" by (rule assms(2))
  from st f have "pre_ok s'" if "flows s' = flows s" for s'
    using that by (simp add: pre_ok_def)
  with en i f show ?thesis
    by (auto simp: on_check_def Let_def pre_ok_def flows_handlers
        split: cmd_result.splits request.splits)
qed

lemma pre_ok_proc_close:
  assumes "structural s" "pre_ok s"
  shows "pre_ok (step s (ProcClose p code))"
proof (cases "proc_alive s p")
  case False
  with assms show ?thesis by simp
next
  case True
  then have pl: "p < length (procs s)" by (simp add: proc_alive_def)
  from proc_index[OF assms(1) pl] obtain q f where p: "p = 0" and q: "procs s = [q]"
    and f: "flows s = [f]" by blast
  from assms(1) q f have ok: "proc_ok s q" and np: "\<not> prespawn (stage f)"
    by (simp_all add: structural_def)
  then have fo: "flow_of q = 0" by (simp add: proc_ok_def)
  from np have ns: "stage f \<noteq> AwaitSts" "stage f \<noteq> AwaitIam" by (auto simp: prespawn_def)
  let ?s1 = "mark_proc 0 (\<lambda>q. q\<lparr>exited := True\<rparr>) s"
  have f1: "flows (?s1\<lparr>eksProcessExited := True\<rparr>) = [f]" by (simp add: f mark_proc_def)
  have "pre_ok ?s1" using f ns by (simp add: pre_ok_def mark_proc_def)
  moreover have "pre_ok (on_proc_close 0 code ?s1)"
    by (auto simp: on_proc_close_def Let_def pre_ok_def mark_proc_def q f fo
        flows_handlers flows_set_stage_single split: request.splits)
  ultimately show ?thesis using True p by (simp add: Let_def)
qed

lemma pre_ok_proc_error:
  assumes "structural s" "pre_ok s"
  shows "pre_ok (step s (ProcError p e))"
proof (cases "proc_alive s p")
  case False
  with assms show ?thesis by simp
next
  case True
  then have pl: "p < length (procs s)" by (simp add: proc_alive_def)
  from proc_index[OF assms(1) pl] obtain q f where p: "p = 0" and q: "procs s = [q]"
    and f: "flows s = [f]" by blast
  from assms(1) q f have ok: "proc_ok s q" and np: "\<not> prespawn (stage f)"
    by (simp_all add: structural_def)
  then have fo: "flow_of q = 0" by (simp add: proc_ok_def)
  from np have ns: "stage f \<noteq> AwaitSts" "stage f \<noteq> AwaitIam" by (auto simp: prespawn_def)
  let ?s1 = "mark_proc 0 (\<lambda>q. q\<lparr>failed := True\<rparr>) s"
  have "pre_ok ?s1" using f ns by (simp add: pre_ok_def mark_proc_def)
  moreover have "pre_ok (on_proc_error 0 e ?s1)"
    by (auto simp: on_proc_error_def Let_def pre_ok_def mark_proc_def q f fo
        flows_set_stage_single split: request.splits)
  ultimately show ?thesis using True p assms(2) by (simp add: Let_def)
qed

lemma pre_ok_helper:
  assumes "structural s" "pre_ok s"
  shows "pre_ok (step s (HelperDone i r))"
proof (cases "\<exists>st. stage_of s i = Some st \<and> in_post st")
  case False
  with assms show ?thesis by (auto split: option.splits)
next
  case True
  then obtain st where en: "stage_of s i = Some st" and ip: "in_post st" by blast
  from stage_of_index[OF assms(1) en] obtain f where i: "i = 0" and f: "flows s = [f]"
    by blast
  with en ip show ?thesis
    by (auto simp: on_helper_def Let_def pre_ok_def flows_handlers flows_set_stage_single
        split: helper_result.splits request.splits)
qed

lemma pre_ok_delay:
  assumes "structural s" "pre_ok s"
  shows "pre_ok (step s (DelayDone i))"
proof (cases "stage_of s i = Some Delay")
  case False
  with assms show ?thesis by simp
next
  case True
  from stage_of_index[OF assms(1) True] obtain f where i: "i = 0" and f: "flows s = [f]"
    by blast
  with True show ?thesis
    by (simp add: on_delay_def pre_ok_def flows_handlers[OF f])
qed

lemma pre_ok_step:
  assumes "structural s" "pre_ok s" "\<not> is_message e"
  shows "pre_ok (step s e)"
proof (cases e)
  case (ProcData p c)
  with assms(2) show ?thesis
    by (auto simp: pre_ok_def on_proc_data_def split: chunk.splits)
next
  case (HelperLog i t)
  with assms(2) show ?thesis
    by (auto simp: pre_ok_def split: option.splits)
next
  case TimerFired
  with assms(2) show ?thesis
    by (auto simp: pre_ok_def on_timer_def ws_close_def)
next
  case WsClose
  with assms(2) show ?thesis
    by (auto simp: pre_ok_def on_ws_close_def cleanupEksProcessResources_def split: option.splits)
next
  case (WsError x)
  with assms(2) show ?thesis
    by (auto simp: pre_ok_def on_ws_error_def Let_def)
qed (use assms pre_ok_sts pre_ok_iam pre_ok_check_data pre_ok_check pre_ok_proc_close
      pre_ok_proc_error pre_ok_helper pre_ok_delay in simp_all)


lemma session_inv_run_aux:
  "single_command evs \<Longrightarrow>
     pre_ok (run_events init evs)
     \<and> ((\<forall>x \<in> set evs. \<not> is_message x) \<longrightarrow> flows (run_events init evs) = [])"
proof (induction evs rule: rev_induct)
  case Nil
  then show ?case by (simp add: pre_ok_def init_def)
next
  case (snoc e evs)
  from single_command_snoc[OF snoc.prems]
  have sc: "single_command evs" and m: "is_message e \<longrightarrow> (\<forall>x \<in> set evs. \<not> is_message x)"
    by simp_all
  from snoc.IH[OF sc] have po: "pre_ok (run_events init evs)"
    and fl: "(\<forall>x \<in> set evs. \<not> is_message x) \<longrightarrow> flows (run_events init evs) = []"
    by simp_all
  have st: "structural (run_events init evs)" using sc by (rule structural_run)
  show ?case
  proof (cases "is_message e")
    case True
    then obtain msg where e: "e = Message msg" by (cases e) auto
    from True m fl have "flows (run_events init evs) = []" by simp
    with po have "pre_ok (step (run_events init evs) (Message msg))"
      by (rule pre_ok_message)
    with True e show ?thesis
      by (simp only: run_events_snoc) simp
  next
    case False
    have "flows (run_events init (evs @ [e])) = []" if "\<forall>x \<in> set evs. \<not> is_message x"
      using length_flows_step[OF False, of "run_events init evs"] fl that
      by (simp add: run_events_snoc)
    with False st po show ?thesis
      by (simp add: run_events_snoc pre_ok_step)
  qed
qed

lemma pre_ok_run: "single_command evs \<Longrightarrow> pre_ok (run_events init evs)"
  by (simp add: session_inv_run_aux)

lemma join_contains:
  "x \<in> set xs \<Longrightarrow> \<exists>u v. join sep xs = u @ x @ v"
proof (induction sep xs rule: join.induct)
  case (1 sep)
  then show ?case by simp
next
  case (2 sep y)
  then have "join sep [y] = [] @ x @ []" by simp
  then show ?case by blast
next
  case (3 sep y z zs)
  show ?case
  proof (cases "x = y")
    case True
    then have "join sep (y # z # zs) = [] @ x @ (sep @ join sep (z # zs))" by simp
    then show ?thesis by blast
  next
    case False
    with 3 obtain u v where "join sep (z # zs) = u @ x @ v" by auto
    then have "join sep (y # z # zs) = (y @ sep @ u) @ x @ v" by simp
    then show ?thesis by blast
  qed
qed

lemma join_values_contains:
  assumes "JStr a \<in> set vals"
  shows "\<exists>u v. join_values sep vals = u @ a @ v"
proof -
  from assms have "a \<in> set (map (\<lambda>x. if x = JUndefined \<or> x = JNull then [] else js_toString x) vals)"
    by force
  then show ?thesis
    unfolding join_values_def by (rule join_contains)
qed

text \<open>
  Claim C4. Take a session with one command whose create request awaits the IAM simulation,
  and let the simulation report at least one action whose decision is not \<^verbatim>\<open>allowed\<close>. Then,
  whatever events other than a new message follow, the session sends exactly one more frame,
  the error frame \<^verbatim>\<open>Pre-flight check failed. Missing permissions: ...\<close> whose text contains
  the name of every denied action; the commands run are those run before the simulation
  returned, namely the caller identity and the simulation itself, so the existence check
  \<^verbatim>\<open>eksctl get cluster\<close> is never run; no subprocess is ever spawned; and the socket is no
  longer open.
\<close>

theorem preflight_denial_aborts:
  assumes "single_command pre"
    and "i < length (flows (run_events init pre))"
    and "stage (flows (run_events init pre) ! i) = AwaitIam"
    and "\<exists>r \<in> set rs. EvalDecision r \<noteq> JStr ''allowed''"
    and "\<forall>e \<in> set post. \<not> is_message e"
  shows "sends (run_events init (pre @ IamDone i (IamEvaluated rs) # post))
           = sends (run_events init pre)
             @ [(readyState (run_events init pre),
                 Error (''Pre-flight check failed. Missing permissions: ''
                        @ join_values '', ''
                            (map EvalActionName (filter (\<lambda>r. EvalDecision r \<noteq> JStr ''allowed'') rs))
                        @ ''. Please grant these permissions to your IAM user and try again.''))]
       \<and> (\<forall>r \<in> set rs. \<forall>a. EvalDecision r \<noteq> JStr ''allowed'' \<and> EvalActionName r = JStr a \<longrightarrow>
             (\<exists>u v. join_values '', ''
                       (map EvalActionName (filter (\<lambda>r. EvalDecision r \<noteq> JStr ''allowed'') rs))
                     = u @ a @ v))
       \<and> commands (run_events init (pre @ IamDone i (IamEvaluated rs) # post))
           = commands (run_events init pre)
       \<and> (\<exists>arn. commands (run_events init pre)
                  = [''aws sts get-caller-identity --query Arn --output text'',
                     ''aws iam simulate-principal-policy --policy-source-arn '' @ trim arn
                     @ '' --action-names iam:CreateRole iam:AttachRolePolicy iam:PutRolePolicy iam:CreateServiceLinkedRole''])
       \<and> procs (run_events init (pre @ IamDone i (IamEvaluated rs) # post)) = []
       \<and> readyState (run_events init (pre @ IamDone i (IamEvaluated rs) # post)) \<noteq> OPEN"
proof -
  let ?s = "run_events init pre"
  let ?msg = "preflight_denied_message (denied_results rs)"
  have st: "structural ?s" using assms(1) by (rule structural_run)
  have po: "pre_ok ?s" using assms(1) by (rule pre_ok_run)
  have en: "stage_of ?s i = Some AwaitIam"
    using assms(2,3) by (simp add: stage_of_def)
  from stage_of_index[OF st en] obtain f where i: "i = 0" and f: "flows ?s = [f]"
    and sf: "stage f = AwaitIam" by blast
  from assms(4) have den: "denied_results rs \<noteq> []"
    by (auto simp: denied_results_def filter_empty_conv)
  have s1: "step ?s (IamDone i (IamEvaluated rs)) = abort i ?msg ?s"
    using en den by (simp add: on_iam_def Let_def)
  have d1: "dead (abort i ?msg ?s)"
    using st en by (rule dead_abort) (simp add: prespawn_def)
  have snd1: "sends (abort i ?msg ?s) = sends ?s @ [(readyState ?s, Error ?msg)]"
    by (simp add: abort_def set_stage_def cleanupEksProcessResources_def ws_close_def ws_send_def
        split: option.splits)
  from dead_run[OF d1 assms(5)] have fin:
    "dead (run_events (abort i ?msg ?s) post)"
    "sends (run_events (abort i ?msg ?s) post) = sends (abort i ?msg ?s)"
    "commands (run_events (abort i ?msg ?s) post) = commands (abort i ?msg ?s)"
    "procs (run_events (abort i ?msg ?s) post) = []"
    by simp_all
  have run: "run_events init (pre @ IamDone i (IamEvaluated rs) # post)
               = run_events (abort i ?msg ?s) post"
    by (simp only: run_events_append run_events_Cons s1)
  from po f sf obtain arn where arn: "commands ?s = [sts_command, checkIamPermsCmd arn]"
    by (auto simp: pre_ok_def)
  have names: "\<exists>u v. join_values '', ''
                       (map EvalActionName (filter (\<lambda>r. EvalDecision r \<noteq> JStr ''allowed'') rs))
                     = u @ a @ v"
    if "r \<in> set rs" "EvalDecision r \<noteq> JStr ''allowed''" "EvalActionName r = JStr a" for r a
  proof (rule join_values_contains)
    from that show "JStr a \<in> set (map EvalActionName (filter (\<lambda>r. EvalDecision r \<noteq> JStr ''allowed'') rs))"
      by force
  qed
  have cmd_text: "[sts_command, checkIamPermsCmd arn]
      = [''aws sts get-caller-identity --query Arn --output text'',
         ''aws iam simulate-principal-policy --policy-source-arn '' @ trim arn
         @ '' --action-names iam:CreateRole iam:AttachRolePolicy iam:PutRolePolicy iam:CreateServiceLinkedRole'']"
    by (simp add: sts_command_def checkIamPermsCmd_def requiredPermissions_def)
  have msg_text: "?msg = ''Pre-flight check failed. Missing permissions: ''
                        @ join_values '', ''
                            (map EvalActionName (filter (\<lambda>r. EvalDecision r \<noteq> JStr ''allowed'') rs))
                        @ ''. Please grant these permissions to your IAM user and try again.''"
    by (simp add: preflight_denied_message_def denied_results_def)
  have c1: "sends (run_events init (pre @ IamDone i (IamEvaluated rs) # post))
           = sends ?s @ [(readyState ?s, Error ?msg)]"
    by (simp only: run fin snd1)
  have c3: "commands (run_events init (pre @ IamDone i (IamEvaluated rs) # post)) = commands ?s"
    by (simp only: run fin commands_handlers)
  have c4: "\<exists>arn. commands ?s
                  = [''aws sts get-caller-identity --query Arn --output text'',
                     ''aws iam simulate-principal-policy --policy-source-arn '' @ trim arn
                     @ '' --action-names iam:CreateRole iam:AttachRolePolicy iam:PutRolePolicy iam:CreateServiceLinkedRole'']"
    using arn cmd_text by (intro exI[of _ arn]) (simp only:)
  have c5: "procs (run_events init (pre @ IamDone i (IamEvaluated rs) # post)) = []"
    by (simp only: run fin)
  have c6: "readyState (run_events init (pre @ IamDone i (IamEvaluated rs) # post)) \<noteq> OPEN"
    using fin(1) by (simp only: run dead_def) simp
  from c1 names c3 c4 c5 c6 show ?thesis
    unfolding msg_text by blast
qed

theorem preflight_denial_aborts_witness:
  "single_command preflight_pending
   \<and> 0 < length (flows (run_events init preflight_pending))
   \<and> stage (flows (run_events init preflight_pending) ! 0) = AwaitIam
   \<and> EvalDecision (create_role_denied ! 0) \<noteq> JStr ''allowed''
   \<and> \<not> is_message (CheckDone 0 not_found_exit) \<and> \<not> is_message TimerFired \<and> \<not> is_message WsClose
   \<and> sends (run_events init (preflight_pending @ IamDone 0 (IamEvaluated create_role_denied) # after_denial))
       = sends (run_events init preflight_pending)
         @ [(OPEN, Error (''Pre-flight check failed. Missing permissions: iam:CreateRole''
                          @ ''. Please grant these permissions to your IAM user and try again.''))]
   \<and> commands (run_events init (preflight_pending @ IamDone 0 (IamEvaluated create_role_denied) # after_denial))
       = [''aws sts get-caller-identity --query Arn --output text'',
          ''aws iam simulate-principal-policy --policy-source-arn arn:aws:iam::123456789012:user/dev''
          @ '' --action-names iam:CreateRole iam:AttachRolePolicy iam:PutRolePolicy iam:CreateServiceLinkedRole'']
   \<and> procs (run_events init (preflight_pending @ IamDone 0 (IamEvaluated create_role_denied) # after_denial)) = []"
proof -
  have h1: "single_command preflight_pending" by code_simp
  have h2: "0 < length (flows (run_events init preflight_pending))" by code_simp
  have h3: "stage (flows (run_events init preflight_pending) ! 0) = AwaitIam" by code_simp
  have d: "EvalDecision (create_role_denied ! 0) \<noteq> JStr ''allowed''" by code_simp
  have m: "create_role_denied ! 0 \<in> set create_role_denied" by (simp add: create_role_denied_def)
  from d m have h4: "\<exists>r \<in> set create_role_denied. EvalDecision r \<noteq> JStr ''allowed''" by blast
  have n1: "\<not> is_message (CheckDone 0 not_found_exit)" and n2: "\<not> is_message TimerFired"
    and n3: "\<not> is_message WsClose" by simp_all
  then have h5: "\<forall>e \<in> set after_denial. \<not> is_message e" by (simp add: after_denial_def)
  have j: "join_values '', ''
             (map EvalActionName (filter (\<lambda>r. EvalDecision r \<noteq> JStr ''allowed'') create_role_denied))
           = ''iam:CreateRole''" by code_simp
  have o: "readyState (run_events init preflight_pending) = OPEN" by code_simp
  have c: "commands (run_events init preflight_pending)
       = [''aws sts get-caller-identity --query Arn --output text'',
          ''aws iam simulate-principal-policy --policy-source-arn arn:aws:iam::123456789012:user/dev''
          @ '' --action-names iam:CreateRole iam:AttachRolePolicy iam:PutRolePolicy iam:CreateServiceLinkedRole'']"
    by code_simp
  note t = preflight_denial_aborts [OF h1 h2 h3 h4 h5]
  from t have t1: "sends (run_events init (preflight_pending @ IamDone 0 (IamEvaluated create_role_denied) # after_denial))
       = sends (run_events init preflight_pending)
         @ [(OPEN, Error (''Pre-flight check failed. Missing permissions: iam:CreateRole''
                          @ ''. Please grant these permissions to your IAM user and try again.''))]"
    unfolding j o by simp
  from t have t2: "commands (run_events init (preflight_pending @ IamDone 0 (IamEvaluated create_role_denied) # after_denial))
       = commands (run_events init preflight_pending)" by blast
  from t have t3: "procs (run_events init (preflight_pending @ IamDone 0 (IamEvaluated create_role_denied) # after_denial)) = []"
    by blast
  from h1 h2 h3 d n1 n2 n3 t1 t2[unfolded c] t3 show ?thesis by blast
qed

end
